theory Spec2Isabelle
  imports Main "HOL-Library.AList" "HOL-Library.Sublist" "HOL-Library.Word"
begin

section \<open>Python strings\<close>

text \<open>
  Text is modelled as \<^typ>\<open>string\<close>. The helpers below are the Python string
  operations the sources call: \<^verbatim>\<open>str.split(sep)\<close> with a one-character
  separator, \<^verbatim>\<open>str.strip()\<close>, \<^verbatim>\<open>str.lower()\<close> and the
  substring test \<^verbatim>\<open>a in b\<close>. Case folding and white space are those of
  ASCII, which is what device ids, connection states and package names consist of.
\<close>

fun py_split :: "char \<Rightarrow> string \<Rightarrow> string list" where
  "py_split sep [] = [[]]"
| "py_split sep (c # cs) =
     (if c = sep then [] # py_split sep cs
      else (case py_split sep cs of
              [] \<Rightarrow> [[c]]
            | w # ws \<Rightarrow> (c # w) # ws))"

definition py_isspace :: "char \<Rightarrow> bool" where
  "py_isspace c =
     (c = CHR '' '' \<or> (9 \<le> (of_char c :: nat) \<and> (of_char c :: nat) \<le> 13)
      \<or> (28 \<le> (of_char c :: nat) \<and> (of_char c :: nat) \<le> 31))"

definition py_strip :: "string \<Rightarrow> string" where
  "py_strip s = rev (dropWhile py_isspace (rev (dropWhile py_isspace s)))"

definition py_lower_char :: "char \<Rightarrow> char" where
  "py_lower_char c =
     (if 65 \<le> (of_char c :: nat) \<and> (of_char c :: nat) \<le> 90
      then char_of ((of_char c :: nat) + 32) else c)"

definition py_lower :: "string \<Rightarrow> string" where
  "py_lower s = map py_lower_char s"

fun py_in :: "string \<Rightarrow> string \<Rightarrow> bool" where
  "py_in sub [] = (sub = [])"
| "py_in sub (c # cs) = (prefix sub (c # cs) \<or> py_in sub cs)"

section \<open>Device records and the registry (utils/device.py, grpc\_server.py)\<close>

text \<open>
  \<^verbatim>\<open>get_all_devices\<close> builds, for every device, a dictionary that always holds
  the key \<^verbatim>\<open>"state"\<close> and, when \<^verbatim>\<open>getprop\<close> could be read, the five
  keys of \<^verbatim>\<open>DEVICE_PROPERTIES\<close>. The record keeps the state as a field of its
  own and the other keys as an association list.
\<close>

record dev_properties =
  state :: string
  props :: "(string \<times> string) list"

text \<open>
  The dataclass \<^verbatim>\<open>Device\<close>. The logcat process is kept as its process id and
  the temporary file as its name. The lock \<^verbatim>\<open>adb_lock\<close> is shared by all
  devices of a server and serialises tool invocations; the model is sequential and has no
  field for it.
\<close>

record Device =
  dev_id :: string
  properties :: dev_properties
  in_use :: bool
  last_installed_app :: "string option"
  running_app_pid :: int
  logcat_file :: string
  logcat_collect_process :: "nat option"
  logout_tempfile :: "string option"

definition new_Device :: "string \<Rightarrow> dev_properties \<Rightarrow> Device" where
  "new_Device i p =
     \<lparr>dev_id = i, properties = p, in_use = False, last_installed_app = None,
      running_app_pid = 0, logcat_file = [], logcat_collect_process = None,
      logout_tempfile = None\<rparr>"

text \<open>
  \<^verbatim>\<open>VTestStation.devices\<close> is a dict from device id to \<^verbatim>\<open>Device\<close>. Leasing
  scans it in insertion order, so it is an association list; a new key goes to the end.
\<close>

type_synonym registry = "(string \<times> Device) list"

definition add_device :: "Device \<Rightarrow> registry \<Rightarrow> registry" where
  "add_device device devices =
     (if dev_id device \<in> set (map fst devices) then devices
      else devices @ [(dev_id device, device)])"

definition del_device :: "string \<Rightarrow> registry \<Rightarrow> registry" where
  "del_device device_id devices =
     (if device_id \<in> set (map fst devices)
      then filter (\<lambda>kv. fst kv \<noteq> device_id) devices else devices)"

definition get_device :: "registry \<Rightarrow> string \<Rightarrow> Device option" where
  "get_device devices i = (if i \<in> set (map fst devices) then map_of devices i else None)"

definition devices_as_dict :: "registry \<Rightarrow> (string \<times> bool \<times> dev_properties) list" where
  "devices_as_dict devices = map (\<lambda>kv. (dev_id (snd kv), in_use (snd kv), properties (snd kv))) devices"

text \<open>
  What the rest of the program relies on: the keys of the dict are distinct and every
  record is stored under its own id.
\<close>

definition registry_ok :: "registry \<Rightarrow> bool" where
  "registry_ok devices =
     (distinct (map fst devices) \<and> list_all (\<lambda>kv. dev_id (snd kv) = fst kv) devices)"

section \<open>Enumeration: get\_all\_devices\<close>

text \<open>
  The outcome of a subprocess call: it completed with its (decoded) standard output and
  standard error, it ran into its timeout (\<^verbatim>\<open>subprocess.TimeoutExpired\<close>, with the
  text of the exception), or it raised another exception.
\<close>

datatype proc_result =
    Completed string string
  | TimeoutExpired string
  | Raised string

definition VALID_DEVICE_STATES :: "string list" where
  "VALID_DEVICE_STATES = [''device'', ''unauthorized'']"

text \<open>The first loop of \<^verbatim>\<open>get_all_devices\<close>, over the lines of \<^verbatim>\<open>adb devices\<close>.\<close>

fun parse_device_lines :: "string list \<Rightarrow> (string \<times> dev_properties) list \<Rightarrow> (string \<times> dev_properties) list" where
  "parse_device_lines [] devices = devices"
| "parse_device_lines (line # lines) devices =
     (case py_split CHR 0x09 (py_strip line) of
        [a, b] \<Rightarrow>
          (if b \<notin> set VALID_DEVICE_STATES then parse_device_lines lines devices
           else parse_device_lines lines (AList.update a \<lparr>state = b, props = []\<rparr> devices))
      | _ \<Rightarrow> parse_device_lines lines devices)"

text \<open>
  The second loop fetches the properties of every device with one more tool call. Its
  outcome is the parameter \<open>getprop\<close>: the keys to merge into the dictionary of
  the device (none when the call raised).
\<close>

definition fetch_properties :: "(string \<Rightarrow> (string \<times> string) list) \<Rightarrow> (string \<times> dev_properties) list \<Rightarrow> (string \<times> dev_properties) list" where
  "fetch_properties getprop devices =
     map (\<lambda>kv. (fst kv, (snd kv)\<lparr>props := fold (\<lambda>p. AList.update (fst p) (snd p)) (getprop (fst kv)) (props (snd kv))\<rparr>)) devices"

definition get_all_devices :: "proc_result \<Rightarrow> (string \<Rightarrow> (string \<times> string) list) \<Rightarrow> string + (string \<times> dev_properties) list" where
  "get_all_devices out getprop =
     (case out of
        TimeoutExpired e \<Rightarrow> Inr []
      | Raised e \<Rightarrow> Inl e
      | Completed stdout stderr \<Rightarrow>
          Inr (fetch_properties getprop (parse_device_lines (py_split CHR 0x0A stdout) [])))"

section \<open>Refresh and leasing: VTestFunctions\<close>

record 'a RPCResponse =
  result :: 'a
  error :: string

definition getAdbDevices_add :: "(string \<times> dev_properties) list \<Rightarrow> registry \<Rightarrow> registry" where
  "getAdbDevices_add devices reg =
     fold (\<lambda>kv r. if state (snd kv) \<noteq> ''device'' then r
                   else add_device (new_Device (fst kv) (snd kv)) r) devices reg"

definition getAdbDevices_remove :: "(string \<times> dev_properties) list \<Rightarrow> registry \<Rightarrow> registry" where
  "getAdbDevices_remove devices reg =
     fold (\<lambda>devid r. if devid \<notin> set (map fst devices) then del_device devid r else r)
       (map fst reg) reg"

definition getAdbDevices :: "proc_result \<Rightarrow> (string \<Rightarrow> (string \<times> string) list) \<Rightarrow> registry
    \<Rightarrow> registry \<times> (string \<times> bool \<times> dev_properties) list RPCResponse" where
  "getAdbDevices out getprop reg =
     (case get_all_devices out getprop of
        Inl e \<Rightarrow> (reg, \<lparr>result = [], error = ''Get all devices failed: '' @ e\<rparr>)
      | Inr devices \<Rightarrow>
          (let reg' = getAdbDevices_remove devices (getAdbDevices_add devices reg)
           in (reg', \<lparr>result = devices_as_dict reg', error = []\<rparr>)))"

text \<open>
  The loop of \<^verbatim>\<open>getFreeDevices\<close> over \<^verbatim>\<open>VTestStation.devices.values()\<close>. It
  returns the registry with the leased devices marked and the list \<^verbatim>\<open>ret_devices\<close>.
  The \<^verbatim>\<open>break\<close> leaves the rest of the registry as it is.
\<close>

fun getFreeDevices_loop :: "int \<Rightarrow> string list \<Rightarrow> registry \<Rightarrow> string list \<Rightarrow> registry \<times> string list" where
  "getFreeDevices_loop num_devices wish_devices [] ret_devices = ([], ret_devices)"
| "getFreeDevices_loop num_devices wish_devices ((k, device) # rest) ret_devices =
     (if in_use device then
        (case getFreeDevices_loop num_devices wish_devices rest ret_devices of
           (rest', ret') \<Rightarrow> ((k, device) # rest', ret'))
      else if length wish_devices = 0 then
        (if int (length ret_devices) = num_devices then ((k, device) # rest, ret_devices)
         else
           (case getFreeDevices_loop num_devices wish_devices rest (ret_devices @ [dev_id device]) of
              (rest', ret') \<Rightarrow> ((k, device\<lparr>in_use := True\<rparr>) # rest', ret')))
      else if dev_id device \<in> set wish_devices then
        (case getFreeDevices_loop num_devices wish_devices rest (ret_devices @ [dev_id device]) of
           (rest', ret') \<Rightarrow> ((k, device\<lparr>in_use := True\<rparr>) # rest', ret'))
      else
        (case getFreeDevices_loop num_devices wish_devices rest ret_devices of
           (rest', ret') \<Rightarrow> ((k, device) # rest', ret')))"

text \<open>The registry the loop scans: refreshed first when it is empty.\<close>

definition scanned_registry :: "proc_result \<Rightarrow> (string \<Rightarrow> (string \<times> string) list) \<Rightarrow> registry \<Rightarrow> registry" where
  "scanned_registry out getprop reg =
     (if length reg = 0 then fst (getAdbDevices out getprop reg) else reg)"

definition getFreeDevices :: "proc_result \<Rightarrow> (string \<Rightarrow> (string \<times> string) list) \<Rightarrow> int \<Rightarrow> string list \<Rightarrow> registry
    \<Rightarrow> registry \<times> string list RPCResponse" where
  "getFreeDevices out getprop num_devices wish_devices reg =
     (case getFreeDevices_loop num_devices wish_devices (scanned_registry out getprop reg) [] of
        (reg', ret_devices) \<Rightarrow>
          if length ret_devices = 0 then (reg', \<lparr>result = [], error = ''No free devices''\<rparr>)
          else (reg', \<lparr>result = ret_devices, error = []\<rparr>))"


text \<open>
  The devices a lease may take, from the words of the specification: a device is eligible
  when it is not in use and, for a non-empty wish list, its id is on the list; without a
  wish list the scan stops once the requested count is collected.
\<close>

definition eligible :: "string list \<Rightarrow> registry \<Rightarrow> string list" where
  "eligible wish_devices reg =
     map dev_id (filter (\<lambda>d. \<not> in_use d \<and> (wish_devices = [] \<or> dev_id d \<in> set wish_devices)) (map snd reg))"

definition leasable :: "int \<Rightarrow> string list \<Rightarrow> registry \<Rightarrow> string list" where
  "leasable num_devices wish_devices reg =
     (if wish_devices = [] \<and> 0 \<le> num_devices
      then take (nat num_devices) (eligible wish_devices reg)
      else eligible wish_devices reg)"

section \<open>The host command executor: class Device (utils/device.py)\<close>

text \<open>
  Everything outside the server process is the world \<open>'w\<close>: the attached devices,
  the tool \<^verbatim>\<open>adb\<close> and the files of the host. The record below lists the calls
  into it. \<open>run_adb\<close> is \<^verbatim>\<open>subprocess.Popen(e, ...).communicate(timeout=ADB_EXECUTION_TIMEOUT)\<close>
  for the argument list \<open>e\<close>, with both outputs decoded (decoding with
  \<^verbatim>\<open>errors="replace"\<close> never fails and keeps a non-empty output non-empty).
  \<open>path_exists\<close> is \<^verbatim>\<open>Path.exists\<close>, \<open>path_suffix\<close> is \<^verbatim>\<open>Path.suffix\<close>,
  \<open>get_package_name\<close> and \<open>sign_apk\<close> are the functions of
  \<^verbatim>\<open>utils/apktools.py\<close> (they run \<^verbatim>\<open>aapt2\<close> and \<^verbatim>\<open>apksigner\<close>),
  \<open>mktemp\<close> is \<^verbatim>\<open>tempfile.NamedTemporaryFile(delete=False)\<close>,
  \<open>popen_logcat\<close> starts the capture process and gives its pid or the text of the
  exception, \<open>terminate_wait\<close> is \<^verbatim>\<open>terminate()\<close> followed by
  \<^verbatim>\<open>wait(timeout=5)\<close>, and \<open>read_file\<close> is the content of a file of the host
  (\<open>None\<close> when it does not exist). \<open>rel_dir\<close> is the directory \<^verbatim>\<open>REL_DIR\<close>
  of the environment.
\<close>

datatype stop_result = Stopped | StopTimeout | StopRaised string

record 'w host =
  run_adb :: "string list \<Rightarrow> 'w \<Rightarrow> proc_result \<times> 'w"
  path_exists :: "string \<Rightarrow> 'w \<Rightarrow> bool"
  path_suffix :: "string \<Rightarrow> string"
  get_package_name :: "string \<Rightarrow> 'w \<Rightarrow> string option"
  sign_apk :: "string \<Rightarrow> 'w \<Rightarrow> string option \<times> 'w"
  mktemp :: "'w \<Rightarrow> string \<times> 'w"
  popen_logcat :: "string list \<Rightarrow> string \<Rightarrow> 'w \<Rightarrow> (string + nat) \<times> 'w"
  terminate_wait :: "nat \<Rightarrow> 'w \<Rightarrow> stop_result \<times> 'w"
  read_file :: "string \<Rightarrow> 'w \<Rightarrow> 8 word list option"
  rel_dir :: string

definition ADB_BIN :: string where
  "ADB_BIN = ''adb''"

text \<open>
  \<^verbatim>\<open>Device._exec_adb\<close>: the pair of standard output and standard error, the latter
  \<open>None\<close> when the tool wrote nothing to it. Both \<^verbatim>\<open>except\<close> branches return
  the empty output and the text of the exception.
\<close>

definition exec_adb :: "'w host \<Rightarrow> Device \<Rightarrow> string list \<Rightarrow> 'w \<Rightarrow> (string \<times> string option) \<times> 'w" where
  "exec_adb h self cmd w =
     (case run_adb h ([ADB_BIN, ''-s'', dev_id self] @ cmd) w of
        (Completed stdout stderr, w') \<Rightarrow>
          (if stderr \<noteq> [] then ((stdout, Some stderr), w') else ((stdout, None), w'))
      | (TimeoutExpired e, w') \<Rightarrow> (([], Some e), w')
      | (Raised e, w') \<Rightarrow> (([], Some e), w'))"

text \<open>\<^verbatim>\<open>Device._logcat\<close>: the result of the tool call is dropped.\<close>

definition logcat_msg :: "'w host \<Rightarrow> Device \<Rightarrow> string \<Rightarrow> 'w \<Rightarrow> 'w" where
  "logcat_msg h self msg w = snd (exec_adb h self [''shell'', ''log'', ''-t'', ''DENUVO_DEBUG'', msg] w)"

definition is_package_installed :: "'w host \<Rightarrow> Device \<Rightarrow> string \<Rightarrow> 'w \<Rightarrow> bool \<times> 'w" where
  "is_package_installed h self package_name w =
     (case exec_adb h self [''shell'', ''pm'', ''list'', ''packages''] w of
        ((stdout, stderr), w') \<Rightarrow>
          (list_ex (\<lambda>line. py_in (py_lower package_name) (py_lower line)) (py_split CHR 0x0A stdout), w'))"

definition uninstall_apk :: "'w host \<Rightarrow> Device \<Rightarrow> string option \<Rightarrow> 'w \<Rightarrow> bool \<times> Device \<times> 'w" where
  "uninstall_apk h self package_name w =
     (case package_name of
        Some p \<Rightarrow>
          (True, self, snd (exec_adb h self [''uninstall'', p] (logcat_msg h self (''Uninstall: '' @ p) w)))
      | None \<Rightarrow>
          (case last_installed_app self of
             Some p \<Rightarrow>
               (let self' = self\<lparr>last_installed_app := None\<rparr>
                in (True, self', snd (exec_adb h self' [''uninstall'', p] (logcat_msg h self' (''Uninstall: '' @ p) w))))
           | None \<Rightarrow> (False, self, w)))"

definition install_apk :: "'w host \<Rightarrow> Device \<Rightarrow> string \<Rightarrow> 'w \<Rightarrow> (bool \<times> string) \<times> Device \<times> 'w" where
  "install_apk h self filename w =
     (if \<not> path_exists h filename w then ((True, ''File to install not found!''), self, w)
      else (case get_package_name h filename w of
        None \<Rightarrow> ((True, ''Could not get package name''), self, w)
      | Some pname \<Rightarrow>
          (case uninstall_apk h self (Some pname) w of
             (u, self1, w1) \<Rightarrow>
               (case exec_adb h self1 [''install'', filename] (logcat_msg h self1 (''Installing APK: '' @ filename) w1) of
                  ((stdout, stderr), w3) \<Rightarrow>
                    (case is_package_installed h self1 pname w3 of
                       (installed, w4) \<Rightarrow>
                         if installed then ((False, []), self1\<lparr>last_installed_app := Some pname\<rparr>, w4)
                         else ((True, ''Could not install App, stderr: '' @ (case stderr of None \<Rightarrow> [] | Some e \<Rightarrow> e)),
                               self1, w4))))))"

definition run_apk :: "'w host \<Rightarrow> Device \<Rightarrow> string \<Rightarrow> 'w \<Rightarrow> bool \<times> 'w" where
  "run_apk h self custom_cmd w =
     (case last_installed_app self of
        None \<Rightarrow> (False, w)
      | Some app \<Rightarrow>
          (let cmd = (if custom_cmd \<noteq> [] then py_split CHR '' '' custom_cmd
                      else [''shell'', ''monkey'', ''-p'', app, ''-c'', ''android.intent.category.LAUNCHER'', ''1''])
           in (True, snd (exec_adb h self cmd
                 (logcat_msg h self (''Starting APK: '' @ app @ '', Device: '' @ dev_id self) w)))))"

text \<open>
  \<^verbatim>\<open>Device.kill_apk\<close>. \<^verbatim>\<open>not self.last_installed_app\<close> holds for \<open>None\<close> and
  for the empty string. The body of the \<^verbatim>\<open>try\<close> only calls \<^verbatim>\<open>_exec_adb\<close>,
  which catches every exception itself.
\<close>

definition kill_apk :: "'w host \<Rightarrow> Device \<Rightarrow> 'w \<Rightarrow> bool \<times> 'w" where
  "kill_apk h self w =
     (case last_installed_app self of
        None \<Rightarrow> (False, w)
      | Some app \<Rightarrow>
          if app = [] then (False, w)
          else (case exec_adb h self [''shell'', ''pm'', ''clear'', app] (logcat_msg h self (''Stopping APP: '' @ app) w) of
                  ((out, err), w2) \<Rightarrow>
                    (let w3 = (if py_strip out \<noteq> ''Success'' \<or> err \<noteq> None
                               then snd (exec_adb h self [''shell'', ''am'', ''force-stop'', app]
                                          (logcat_msg h self (''Stopped APP (ERROR): '' @ app) w2))
                               else w2)
                     in (True, logcat_msg h self (''Stopped APP: '' @ app) w3))))"









subsection \<open>What the install is verified against\<close>

text \<open>
  \<open>package_resolvable\<close> is what the documentation of \<^verbatim>\<open>is_package_installed\<close>
  describes: the package name occurs, ignoring case, in a line of the listing.
  \<open>install_outcome\<close> is the result of the tool call \<^verbatim>\<open>adb install\<close> made by
  \<^verbatim>\<open>install_apk\<close> for the package name \<open>pname\<close> (after the uninstall of that
  name and the log message), \<open>install_listing\<close> is the output of the package listing
  requested right after it, and \<open>install_verified\<close> says that \<^verbatim>\<open>install_apk\<close>
  got as far as the listing and found the package there.
\<close>

definition package_resolvable :: "string \<Rightarrow> string \<Rightarrow> bool" where
  "package_resolvable package_name listing =
     (\<exists>line \<in> set (py_split CHR 0x0A listing). sublist (py_lower package_name) (py_lower line))"

definition install_outcome :: "'w host \<Rightarrow> Device \<Rightarrow> string \<Rightarrow> string \<Rightarrow> 'w \<Rightarrow> (string \<times> string option) \<times> 'w" where
  "install_outcome h self fname pname w =
     exec_adb h self [''install'', fname]
       (logcat_msg h self (''Installing APK: '' @ fname)
         (snd (snd (uninstall_apk h self (Some pname) w))))"

definition install_listing :: "'w host \<Rightarrow> Device \<Rightarrow> string \<Rightarrow> string \<Rightarrow> 'w \<Rightarrow> string" where
  "install_listing h self fname pname w =
     fst (fst (exec_adb h self [''shell'', ''pm'', ''list'', ''packages'']
                 (snd (install_outcome h self fname pname w))))"

definition install_verified :: "'w host \<Rightarrow> Device \<Rightarrow> string \<Rightarrow> 'w \<Rightarrow> bool" where
  "install_verified h self fname w =
     (path_exists h fname w \<and>
      (case get_package_name h fname w of
         None \<Rightarrow> False
       | Some pname \<Rightarrow> package_resolvable pname (install_listing h self fname pname w)))"

section \<open>The server functions of the pipeline: VTestFunctions (grpc\_server.py)\<close>

text \<open>
  The methods of \<^verbatim>\<open>Device\<close> mutate the object the registry holds; here the
  changed record is written back under its id.
\<close>

definition put_device :: "string \<Rightarrow> Device \<Rightarrow> registry \<Rightarrow> registry" where
  "put_device did dev reg = map (\<lambda>kv. if fst kv = did then (fst kv, dev) else kv) reg"

text \<open>\<^verbatim>\<open>REL_DIR / server_file\<close>: an absolute right operand replaces the left one.\<close>

definition py_joinpath :: "string \<Rightarrow> string \<Rightarrow> string" where
  "py_joinpath a b = (case b of [] \<Rightarrow> a | c # cs \<Rightarrow> if c = CHR ''/'' then b else a @ ''/'' @ b)"



definition installApp :: "'w host \<Rightarrow> string \<Rightarrow> string \<Rightarrow> bool \<Rightarrow> registry \<Rightarrow> 'w \<Rightarrow> bool RPCResponse \<times> registry \<times> 'w" where
  "installApp h did server_file sign_file reg w =
     (let app_file = py_joinpath (rel_dir h) server_file in
      if \<not> path_exists h app_file w then (\<lparr>result = False, error = ''Appfile not found!''\<rparr>, reg, w)
      else if path_suffix h app_file \<noteq> ''.apk'' then
        (\<lparr>result = False, error = ''only .apk files can be installed!''\<rparr>, reg, w)
      else
        (case (if sign_file then sign_apk h app_file w else (Some app_file, w)) of
           (None, w1) \<Rightarrow> (\<lparr>result = False, error = ''Could not sign apk''\<rparr>, reg, w1)
         | (Some signed_file, w1) \<Rightarrow>
             (case get_device reg did of
                None \<Rightarrow> (\<lparr>result = False, error = ''Device not found: None''\<rparr>, reg, w1)
              | Some dev \<Rightarrow>
                  (case install_apk h dev signed_file w1 of
                     ((err, stderr_msg), dev', w2) \<Rightarrow>
                       if err then (\<lparr>result = False, error = stderr_msg\<rparr>, put_device did dev' reg, w2)
                       else (\<lparr>result = True, error = []\<rparr>, put_device did dev' reg, w2)))))"



section \<open>Chunked transfer (grpc\_client.py, grpc\_server.py)\<close>

definition CHUNK_SIZE :: nat where
  "CHUNK_SIZE = 1024 * 1024"

text \<open>
  The loop \<^verbatim>\<open>while True: chunk = f.read(n); if not chunk: break; yield ...\<close> over
  a file with the given content.
\<close>

function read_chunks :: "nat \<Rightarrow> 8 word list \<Rightarrow> 8 word list list" where
  "read_chunks n content =
     (if n = 0 \<or> content = [] then []
      else take n content # read_chunks n (drop n content))"
  by pat_completeness auto
termination
  by (relation "measure (\<lambda>(n, content). length content)") auto

declare read_chunks.simps [simp del]

record FileUploadRequest =
  filename :: string
  chunk_data :: "8 word list"
  storage_path :: string

definition file_chunk_generator :: "string \<Rightarrow> 8 word list \<Rightarrow> string \<Rightarrow> FileUploadRequest list" where
  "file_chunk_generator name content path =
     map (\<lambda>chunk. \<lparr>filename = name, chunk_data = chunk, storage_path = path\<rparr>) (read_chunks CHUNK_SIZE content)"

datatype exn = StopIteration | OSError string | RpcError string

datatype transport = Delivered | RequestLost | ResponseLost

type_synonym filesystem = "string \<Rightarrow> 8 word list option"

text \<open>
  \<^verbatim>\<open>CommunicationServicer.UploadFile\<close>. \<^verbatim>\<open>next(request_iterator)\<close> raises
  \<^verbatim>\<open>StopIteration\<close> on a stream without a request. \<open>io_ok\<close> says whether
  \<^verbatim>\<open>mkdir\<close> and \<^verbatim>\<open>open\<close> succeed.
\<close>

definition UploadFile :: "string \<Rightarrow> bool \<Rightarrow> FileUploadRequest list \<Rightarrow> filesystem \<Rightarrow> (exn + string) \<times> filesystem" where
  "UploadFile rel io_ok request_iterator fs =
     (case request_iterator of
        [] \<Rightarrow> (Inl StopIteration, fs)
      | first_request # requests \<Rightarrow>
          if \<not> io_ok then (Inl (OSError ''mkdir/open''), fs)
          else (Inr ''OK'',
                fs(py_joinpath (py_joinpath rel (storage_path first_request)) (filename first_request)
                     \<mapsto> chunk_data first_request @ concat (map chunk_data requests))))"

text \<open>
  The client's \<^verbatim>\<open>upload_file\<close>: every exception, of the transport or of the
  server, ends in \<^verbatim>\<open>return False\<close>.
\<close>

definition upload_file :: "transport \<Rightarrow> string \<Rightarrow> bool \<Rightarrow> string \<Rightarrow> 8 word list \<Rightarrow> string \<Rightarrow> filesystem \<Rightarrow> bool \<times> filesystem" where
  "upload_file net rel io_ok name content path fs =
     (case net of
        RequestLost \<Rightarrow> (False, fs)
      | ResponseLost \<Rightarrow> (False, snd (UploadFile rel io_ok (file_chunk_generator name content path) fs))
      | Delivered \<Rightarrow>
          (case UploadFile rel io_ok (file_chunk_generator name content path) fs of
             (Inl e, fs') \<Rightarrow> (False, fs')
           | (Inr message, fs') \<Rightarrow> (message = ''OK'', fs')))"

text \<open>
  \<^verbatim>\<open>CommunicationServicer.PullFile\<close>: the stream of chunks, or the status
  \<^verbatim>\<open>NOT_FOUND\<close> with no chunk.
\<close>

definition PullFile :: "filesystem \<Rightarrow> string \<Rightarrow> string + 8 word list list" where
  "PullFile fs name =
     (case fs name of
        None \<Rightarrow> Inl ''StatusCode.NOT_FOUND, File not found''
      | Some content \<Rightarrow> Inr (read_chunks CHUNK_SIZE content))"

subsection \<open>Decoding UTF-8\<close>

text \<open>
  \<^verbatim>\<open>bytes.decode("utf-8", errors)\<close> of the Python library, for the error handlers
  \<^verbatim>\<open>"strict"\<close> and \<^verbatim>\<open>"ignore"\<close>. A Python string is its list of code
  points. \<open>utf8_step\<close> reads one character at the head of a non-empty input: the code
  point, or \<open>None\<close> for an invalid or truncated sequence, and how many bytes after the
  first it covers.
\<close>

type_synonym unicode = "nat list"

datatype errors_mode = Strict | Ignore

definition is_cont :: "nat \<Rightarrow> bool" where
  "is_cont c = (128 \<le> c \<and> c \<le> 191)"

fun utf8_step :: "nat \<Rightarrow> nat list \<Rightarrow> nat option \<times> nat" where
  "utf8_step b rest =
     (if b < 128 then (Some b, 0)
      else if 194 \<le> b \<and> b \<le> 223 then
        (case rest of
           c1 # r \<Rightarrow> if is_cont c1 then (Some ((b - 192) * 64 + (c1 - 128)), 1) else (None, 0)
         | [] \<Rightarrow> (None, 0))
      else if 224 \<le> b \<and> b \<le> 239 then
        (case rest of
           c1 # r \<Rightarrow>
             if (if b = 224 then 160 \<le> c1 \<and> c1 \<le> 191
                 else if b = 237 then 128 \<le> c1 \<and> c1 \<le> 159 else is_cont c1)
             then (case r of
                     c2 # r' \<Rightarrow>
                       if is_cont c2 then (Some ((b - 224) * 4096 + (c1 - 128) * 64 + (c2 - 128)), 2)
                       else (None, 1)
                   | [] \<Rightarrow> (None, 1))
             else (None, 0)
         | [] \<Rightarrow> (None, 0))
      else if 240 \<le> b \<and> b \<le> 244 then
        (case rest of
           c1 # r \<Rightarrow>
             if (if b = 240 then 144 \<le> c1 \<and> c1 \<le> 191
                 else if b = 244 then 128 \<le> c1 \<and> c1 \<le> 143 else is_cont c1)
             then (case r of
                     c2 # r' \<Rightarrow>
                       if is_cont c2 then
                         (case r' of
                            c3 # r'' \<Rightarrow>
                              if is_cont c3
                              then (Some ((b - 240) * 262144 + (c1 - 128) * 4096 + (c2 - 128) * 64 + (c3 - 128)), 3)
                              else (None, 2)
                          | [] \<Rightarrow> (None, 2))
                       else (None, 1)
                   | [] \<Rightarrow> (None, 1))
             else (None, 0)
         | [] \<Rightarrow> (None, 0))
      else (None, 0))"

function utf8_decode_nat :: "errors_mode \<Rightarrow> nat list \<Rightarrow> string + unicode" where
  "utf8_decode_nat m [] = Inr []"
| "utf8_decode_nat m (b # rest) =
     (case utf8_step b rest of
        (Some cp, k) \<Rightarrow>
          (case utf8_decode_nat m (drop k rest) of Inl e \<Rightarrow> Inl e | Inr t \<Rightarrow> Inr (cp # t))
      | (None, k) \<Rightarrow>
          (case m of
             Strict \<Rightarrow> Inl ''UnicodeDecodeError''
           | Ignore \<Rightarrow> utf8_decode_nat m (drop k rest)))"
  by pat_completeness auto
termination
  by (relation "measure (\<lambda>(m, bs). length bs)") auto

definition utf8_decode :: "errors_mode \<Rightarrow> 8 word list \<Rightarrow> string + unicode" where
  "utf8_decode m bs = utf8_decode_nat m (map unat bs)"

datatype pull_error = RpcFailed string | DecodeFailed string

text \<open>
  The client's \<^verbatim>\<open>pull_file\<close>. It returns a pair of an error flag and a string;
  here \<open>Inr\<close> is \<^verbatim>\<open>(False, text)\<close>, \<open>Inl (RpcFailed m)\<close> is
  \<^verbatim>\<open>(True, m)\<close> of the first \<^verbatim>\<open>except\<close> and \<open>Inl (DecodeFailed m)\<close> is
  \<^verbatim>\<open>(True, "Decode Error: " + m)\<close> of the second.
\<close>

definition pull_file :: "transport \<Rightarrow> filesystem \<Rightarrow> string \<Rightarrow> pull_error + unicode" where
  "pull_file net fs name =
     (case net of
        Delivered \<Rightarrow>
          (case PullFile fs name of
             Inl status \<Rightarrow> Inl (RpcFailed status)
           | Inr response_stream \<Rightarrow>
               (case utf8_decode Ignore (fold (\<lambda>chunk full_response. full_response @ chunk) response_stream []) of
                  Inl e \<Rightarrow> Inl (DecodeFailed e)
                | Inr text \<Rightarrow> Inr text))
      | _ \<Rightarrow> Inl (RpcFailed ''StatusCode.UNAVAILABLE''))"

text \<open>\<^verbatim>\<open>str.encode("utf-8")\<close> on strings without surrogates.\<close>

definition utf8_encode_cp :: "nat \<Rightarrow> nat list" where
  "utf8_encode_cp cp =
     (if cp < 128 then [cp]
      else if cp < 2048 then [192 + cp div 64, 128 + cp mod 64]
      else if cp < 65536 then [224 + cp div 4096, 128 + (cp div 64) mod 64, 128 + cp mod 64]
      else [240 + cp div 262144, 128 + (cp div 4096) mod 64, 128 + (cp div 64) mod 64, 128 + cp mod 64])"

definition utf8_encode :: "unicode \<Rightarrow> 8 word list" where
  "utf8_encode t = map of_nat (concat (map utf8_encode_cp t))"

section \<open>The client and the execution pipeline (grpc\_client.py, app\_executor.py, device\_context.py)\<close>

text \<open>
  The state the pipeline runs on: the registry of the server, the world, and the list of
  the calls the client has made so far, in order. The list is what the claims about
  attempted calls are stated on; the program does not read it.
\<close>

datatype rpc =
    Call_start_logcat_collect string
  | Call_install_app string
  | Call_run_last_installed_apk string
  | Call_uninstall_app string
  | Call_stop_logcat_collect string
  | Call_pull_file string
  | Call_unlock_device string

record 'w station =
  st_devices :: registry
  st_world :: 'w
  st_calls :: "rpc list"

text \<open>
  The network between client and server, and the client's own temporary file:
  \<open>channel i\<close> is what happens to the \<open>i\<close>-th call of the client (counted from 0),
  and \<open>client_tempfile i\<close> is the path of the temporary file the client writes the log
  to after \<open>i\<close> calls, or the text of the exception of
  \<^verbatim>\<open>NamedTemporaryFile\<close> or \<^verbatim>\<open>write_text\<close>.
\<close>

record client_env =
  channel :: "nat \<Rightarrow> transport"
  client_tempfile :: "nat \<Rightarrow> string + string"

record 'a GRPCResult =
  ret :: "'a option"
  err :: "string option"









text \<open>
  \<^verbatim>\<open>GRPCClient.pull_file\<close>: the function \<^verbatim>\<open>pull_file\<close> above catches the
  error of the call itself, so this method does not raise.
\<close>

definition client_pull_file :: "client_env \<Rightarrow> 'w host \<Rightarrow> string \<Rightarrow> 'w station \<Rightarrow> unicode GRPCResult \<times> 'w station" where
  "client_pull_file c h name s =
     (case pull_file (channel c (length (st_calls s))) (\<lambda>n. read_file h n (st_world s)) name of
        Inl (RpcFailed m) \<Rightarrow> (\<lparr>ret = None, err = Some m\<rparr>, s\<lparr>st_calls := st_calls s @ [Call_pull_file name]\<rparr>)
      | Inl (DecodeFailed m) \<Rightarrow>
          (\<lparr>ret = None, err = Some (''Decode Error: '' @ m)\<rparr>, s\<lparr>st_calls := st_calls s @ [Call_pull_file name]\<rparr>)
      | Inr text \<Rightarrow> (\<lparr>ret = Some text, err = None\<rparr>, s\<lparr>st_calls := st_calls s @ [Call_pull_file name]\<rparr>))"






section \<open>Concrete inputs\<close>

text \<open>A registry with one leased and two free devices, and an output of \<^verbatim>\<open>adb devices\<close>.\<close>

definition example_registry :: registry where
  "example_registry =
     [(''A'', (new_Device ''A'' \<lparr>state = ''device'', props = []\<rparr>)\<lparr>in_use := True\<rparr>),
      (''B'', new_Device ''B'' \<lparr>state = ''device'', props = []\<rparr>),
      (''C'', new_Device ''C'' \<lparr>state = ''device'', props = []\<rparr>)]"

definition example_adb_devices :: string where
  "example_adb_devices =
     ''List of devices attached'' @ [CHR 0x0A] @
     ''X'' @ [CHR 0x09] @ ''unauthorized'' @ [CHR 0x0A] @
     ''B'' @ [CHR 0x09] @ ''device'' @ [CHR 0x0A] @
     ''D'' @ [CHR 0x09] @ ''device'' @ [CHR 0x0A] @
     ''E'' @ [CHR 0x09] @ ''offline'' @ [CHR 0x0A]"

text \<open>
  A host on which the package file is missing, so that the install stage fails; every
  tool call completes with empty output.
\<close>

definition example_host :: "unit host" where
  "example_host =
     \<lparr>run_adb = (\<lambda>cmd w. (Completed [] [], w)),
      path_exists = (\<lambda>p w. False),
      path_suffix = (\<lambda>p. ''.apk''),
      get_package_name = (\<lambda>p w. None),
      sign_apk = (\<lambda>p w. (None, w)),
      mktemp = (\<lambda>w. (''/tmp/logcat'', w)),
      popen_logcat = (\<lambda>cmd name w. (Inr 7, w)),
      terminate_wait = (\<lambda>pid w. (Stopped, w)),
      read_file = (\<lambda>name w. Some []),
      rel_dir = ''/srv''\<rparr>"





text \<open>
  A device, a host on which the install writes its usual note to standard error while the
  listing then holds the package (in another case), and a host on which every tool call
  runs into the timeout.
\<close>

definition noisy_host :: "unit host" where
  "noisy_host =
     \<lparr>run_adb = (\<lambda>cmd w.
          if cmd = [''adb'', ''-s'', ''B'', ''install'', ''/srv/app.apk'']
          then (Completed [] ''All files should be loaded. Notifying the device.'', w)
          else if cmd = [''adb'', ''-s'', ''B'', ''shell'', ''pm'', ''list'', ''packages'']
          then (Completed (''package:com.android.shell'' @ [CHR 0x0A] @ ''package:com.Example.App'' @ [CHR 0x0A]) [], w)
          else (Completed [] [], w)),
      path_exists = (\<lambda>p w. True),
      path_suffix = (\<lambda>p. ''.apk''),
      get_package_name = (\<lambda>p w. Some ''com.example.app''),
      sign_apk = (\<lambda>p w. (Some p, w)),
      mktemp = (\<lambda>w. (''/tmp/logcat'', w)),
      popen_logcat = (\<lambda>cmd name w. (Inr 7, w)),
      terminate_wait = (\<lambda>pid w. (Stopped, w)),
      read_file = (\<lambda>name w. Some []),
      rel_dir = ''/srv''\<rparr>"

definition timeout_host :: "unit host" where
  "timeout_host =
     \<lparr>run_adb = (\<lambda>cmd w. (TimeoutExpired ''timed out after 10 seconds'', w)),
      path_exists = (\<lambda>p w. True),
      path_suffix = (\<lambda>p. ''.apk''),
      get_package_name = (\<lambda>p w. Some ''com.example.app''),
      sign_apk = (\<lambda>p w. (Some p, w)),
      mktemp = (\<lambda>w. (''/tmp/logcat'', w)),
      popen_logcat = (\<lambda>cmd name w. (Inr 7, w)),
      terminate_wait = (\<lambda>pid w. (Stopped, w)),
      read_file = (\<lambda>name w. Some []),
      rel_dir = ''/srv''\<rparr>"

definition example_device :: Device where
  "example_device = new_Device ''B'' \<lparr>state = ''device'', props = []\<rparr>"

section \<open>The registry: lookup, refresh and the lease scan\<close>

lemma get_device_map_of: "get_device reg i = map_of reg i"
proof (cases "i \<in> set (map fst reg)")
  case True
  then show ?thesis by (simp add: get_device_def)
next
  case False
  then have "map_of reg i = None" by (simp add: map_of_eq_None_iff)
  then show ?thesis using False by (simp add: get_device_def)
qed

lemma del_device_filter: "del_device i reg = filter (\<lambda>kv. fst kv \<noteq> i) reg"
proof -
  have "i \<notin> set (map fst reg) \<Longrightarrow> filter (\<lambda>kv. fst kv \<noteq> i) reg = reg"
    by (induction reg) auto
  then show ?thesis by (auto simp: del_device_def)
qed

lemma remove_fold:
  "fold (\<lambda>devid r. if devid \<notin> K then del_device devid r else r) ks reg =
     filter (\<lambda>kv. fst kv \<in> K \<or> fst kv \<notin> set ks) reg"
proof (induction ks arbitrary: reg)
  case Nil
  then show ?case by simp
next
  case (Cons k ks)
  show ?case
    by (auto simp: Cons del_device_filter intro!: filter_cong)
qed

lemma getAdbDevices_remove_filter:
  "getAdbDevices_remove devices reg = filter (\<lambda>kv. fst kv \<in> set (map fst devices)) reg"
  unfolding getAdbDevices_remove_def remove_fold
  by (rule filter_cong) auto

lemma add_device_map_of:
  "map_of (add_device d reg) i = (if i = dev_id d \<and> map_of reg i = None then Some d else map_of reg i)"
proof (cases "dev_id d \<in> set (map fst reg)")
  case True
  then have "map_of reg (dev_id d) \<noteq> None" by (simp add: map_of_eq_None_iff)
  then show ?thesis using True by (auto simp: add_device_def)
next
  case False
  then have "map_of reg (dev_id d) = None" by (simp add: map_of_eq_None_iff)
  then show ?thesis using False by (auto simp: add_device_def map_add_def split: option.splits)
qed

lemma add_device_keys:
  "set (map fst (add_device d reg)) = insert (dev_id d) (set (map fst reg))"
  by (auto simp: add_device_def)

lemma add_device_ok: "registry_ok reg \<Longrightarrow> registry_ok (add_device d reg)"
  by (auto simp: add_device_def registry_ok_def)

lemma filter_ok: "registry_ok reg \<Longrightarrow> registry_ok (filter P reg)"
  by (auto simp: registry_ok_def distinct_map_filter list_all_iff)

lemma getAdbDevices_add_ok: "registry_ok reg \<Longrightarrow> registry_ok (getAdbDevices_add devices reg)"
  unfolding getAdbDevices_add_def
  by (induction devices arbitrary: reg) (auto simp: add_device_ok)

lemma getAdbDevices_add_old:
  "map_of reg i = Some d \<Longrightarrow> map_of (getAdbDevices_add devices reg) i = Some d"
  unfolding getAdbDevices_add_def
  by (induction devices arbitrary: reg) (auto simp: add_device_map_of)

lemma getAdbDevices_add_new:
  "map_of reg i = None \<Longrightarrow> distinct (map fst devices) \<Longrightarrow>
   map_of (getAdbDevices_add devices reg) i =
     (case map_of devices i of
        None \<Rightarrow> None
      | Some p \<Rightarrow> if state p = ''device'' then Some (new_Device i p) else None)"
  unfolding getAdbDevices_add_def
proof (induction devices arbitrary: reg)
  case Nil
  then show ?case by simp
next
  case (Cons kv devices)
  show ?case
  proof (cases "fst kv = i")
    case True
    then have "map_of devices i = None" using Cons.prems(2) by (auto simp: map_of_eq_None_iff)
    then show ?thesis using Cons True
      by (auto simp: add_device_map_of new_Device_def getAdbDevices_add_old[unfolded getAdbDevices_add_def] split: option.splits)
  next
    case False
    then show ?thesis using Cons
      by (auto simp: add_device_map_of new_Device_def split: option.splits)
  qed
qed

lemma map_of_filter_keys:
  "map_of (filter (\<lambda>kv. fst kv \<in> K) reg) i = (if i \<in> K then map_of reg i else None)"
  by (induction reg) auto

lemma parse_distinct:
  "distinct (map fst devices) \<Longrightarrow> distinct (map fst (parse_device_lines lines devices))"
  by (induction lines arbitrary: devices) (auto simp: distinct_update split: list.splits)

lemma parse_states:
  "list_all (\<lambda>kv. state (snd kv) \<in> set VALID_DEVICE_STATES) devices \<Longrightarrow>
   list_all (\<lambda>kv. state (snd kv) \<in> set VALID_DEVICE_STATES) (parse_device_lines lines devices)"
proof (induction lines arbitrary: devices)
  case Nil
  then show ?case by simp
next
  case (Cons line lines)
  have upd: "\<And>a b. b \<in> set VALID_DEVICE_STATES \<Longrightarrow>
     list_all (\<lambda>kv. state (snd kv) \<in> set VALID_DEVICE_STATES) (AList.update a \<lparr>state = b, props = []\<rparr> devices)"
    using Cons.prems by (induction devices) auto
  show ?case using Cons upd by (auto split: list.splits)
qed

lemma get_all_devices_distinct:
  "get_all_devices out getprop = Inr devices \<Longrightarrow> distinct (map fst devices)"
  by (auto simp: get_all_devices_def fetch_properties_def comp_def parse_distinct split: proc_result.splits)

lemma loop_ret_wish:
  "wish \<noteq> [] \<Longrightarrow> snd (getFreeDevices_loop n wish reg acc) = acc @ eligible wish reg"
  by (induction reg arbitrary: acc) (auto simp: eligible_def case_prod_beta)

lemma loop_ret_nowish:
  "snd (getFreeDevices_loop n [] reg acc) =
     (if int (length acc) \<le> n then acc @ take (nat (n - int (length acc))) (eligible [] reg)
      else acc @ eligible [] reg)"
proof (induction reg arbitrary: acc)
  case Nil
  then show ?case by (simp add: eligible_def)
next
  case (Cons kd reg)
  obtain k d where kd: "kd = (k, d)" by (cases kd)
  show ?case
  proof (cases "in_use d")
    case True
    then show ?thesis using Cons[of acc] by (simp add: kd eligible_def case_prod_beta)
  next
    case False
    show ?thesis
    proof (cases "int (length acc) = n")
      case True
      then show ?thesis using False by (simp add: kd eligible_def)
    next
      case ne: False
      have "snd (getFreeDevices_loop n [] (kd # reg) acc) = snd (getFreeDevices_loop n [] reg (acc @ [dev_id d]))"
        using False ne by (simp add: kd case_prod_beta)
      also have "\<dots> = (if int (length (acc @ [dev_id d])) \<le> n then (acc @ [dev_id d]) @ take (nat (n - int (length (acc @ [dev_id d])))) (eligible [] reg)
           else (acc @ [dev_id d]) @ eligible [] reg)"
        by (rule Cons)
      also have "\<dots> = (if int (length acc) \<le> n then acc @ take (nat (n - int (length acc))) (eligible [] (kd # reg))
      else acc @ eligible [] (kd # reg))"
      proof (cases "int (length acc) < n")
        case True
        then have "nat (n - int (length acc)) = Suc (nat (n - (1 + int (length acc))))" by simp
        then show ?thesis using True False by (simp add: kd eligible_def)
      next
        case False
        then show ?thesis using ne \<open>\<not> in_use d\<close> by (simp add: kd eligible_def)
      qed
      finally show ?thesis .
    qed
  qed
qed

lemma loop_result: "snd (getFreeDevices_loop n wish reg []) = leasable n wish reg"
  using loop_ret_wish[of wish n reg "[]"] loop_ret_nowish[of n reg "[]"]
  by (cases "wish = []") (auto simp: leasable_def)

lemma loop_keys: "map fst (fst (getFreeDevices_loop n wish reg acc)) = map fst reg"
  by (induction reg arbitrary: acc) (auto simp: case_prod_beta)

lemma loop_zero: "getFreeDevices_loop 0 [] reg [] = (reg, [])"
  by (induction reg) (auto simp: case_prod_beta)

lemma getAdbDevices_ok: "registry_ok reg \<Longrightarrow> registry_ok (fst (getAdbDevices out getprop reg))"
  by (auto simp: getAdbDevices_def getAdbDevices_remove_filter getAdbDevices_add_ok filter_ok Let_def split: sum.splits)

lemma scanned_ok:
  assumes "registry_ok reg"
  shows "registry_ok (scanned_registry out getprop reg)"
proof (cases "reg = []")
  case True
  have "registry_ok []" by (simp add: registry_ok_def)
  then show ?thesis using True getAdbDevices_ok[of "[]" out getprop] by (simp add: scanned_registry_def)
next
  case False
  then show ?thesis using assms by (simp add: scanned_registry_def)
qed

lemma eligible_free:
  "registry_ok reg \<Longrightarrow> i \<in> set (eligible wish reg) \<Longrightarrow> \<exists>d. get_device reg i = Some d \<and> \<not> in_use d"
proof -
  assume ok: "registry_ok reg" and i: "i \<in> set (eligible wish reg)"
  from i obtain k d where kd: "(k, d) \<in> set reg" and d: "dev_id d = i" "\<not> in_use d"
    by (auto simp: eligible_def)
  from ok kd have "k = dev_id d" by (auto simp: registry_ok_def list_all_iff)
  with ok kd d have "map_of reg i = Some d" by (simp add: registry_ok_def)
  then show ?thesis using d by (auto simp: get_device_map_of)
qed

lemma eligible_wish: "wish \<noteq> [] \<Longrightarrow> set (eligible wish reg) \<subseteq> set wish"
  by (auto simp: eligible_def)

lemma leasable_subset: "set (leasable n wish reg) \<subseteq> set (eligible wish reg)"
  by (auto simp: leasable_def dest: in_set_takeD)

lemma getFreeDevices_result:
  "result (snd (getFreeDevices out getprop n wish reg)) = leasable n wish (scanned_registry out getprop reg)"
  using loop_result[of n wish "scanned_registry out getprop reg"]
  by (auto simp: getFreeDevices_def split: prod.splits)

lemma getFreeDevices_error:
  "error (snd (getFreeDevices out getprop n wish reg)) =
     (if leasable n wish (scanned_registry out getprop reg) = [] then ''No free devices'' else [])"
  using loop_result[of n wish "scanned_registry out getprop reg"]
  by (auto simp: getFreeDevices_def split: prod.splits)

text \<open>
  Claim C3. For every registry, a lease with a non-empty wish list returns only ids on
  the list; a lease with an empty wish list and a count \<open>n \<ge> 0\<close> returns at most
  \<open>n\<close> ids; and every returned id is that of a device that was not in use: it is free
  in the registry the scan ran on, and it was not a leased device of the registry before
  the call.
\<close>

theorem lease_returns_only_eligible:
  assumes "registry_ok reg"
  shows "(wish \<noteq> [] \<longrightarrow> set (result (snd (getFreeDevices out getprop n wish reg))) \<subseteq> set wish)
       \<and> (wish = [] \<and> 0 \<le> n \<longrightarrow> int (length (result (snd (getFreeDevices out getprop n wish reg)))) \<le> n)
       \<and> (\<forall>i \<in> set (result (snd (getFreeDevices out getprop n wish reg))).
             \<exists>d. get_device (scanned_registry out getprop reg) i = Some d \<and> \<not> in_use d)
       \<and> (\<forall>i \<in> set (result (snd (getFreeDevices out getprop n wish reg))).
             \<not> (\<exists>d. get_device reg i = Some d \<and> in_use d))"
proof -
  let ?s = "scanned_registry out getprop reg"
  have ok: "registry_ok ?s" using assms by (rule scanned_ok)
  have a: "wish \<noteq> [] \<longrightarrow> set (leasable n wish ?s) \<subseteq> set wish"
    using leasable_subset[of n wish ?s] eligible_wish[of wish ?s] by auto
  have b: "wish = [] \<and> 0 \<le> n \<longrightarrow> int (length (leasable n wish ?s)) \<le> n"
    by (auto simp: leasable_def)
  have c: "\<forall>i \<in> set (leasable n wish ?s). \<exists>d. get_device ?s i = Some d \<and> \<not> in_use d"
    using leasable_subset[of n wish ?s] eligible_free[OF ok] by blast
  have d: "\<forall>i \<in> set (leasable n wish ?s). \<not> (\<exists>d. get_device reg i = Some d \<and> in_use d)"
  proof (cases "reg = []")
    case True
    then show ?thesis by (simp add: get_device_def)
  next
    case False
    then have "?s = reg" by (simp add: scanned_registry_def)
    then show ?thesis using c by auto
  qed
  show ?thesis using a b c d by (simp add: getFreeDevices_result)
qed

theorem lease_returns_only_eligible_witness:
  "registry_ok example_registry
   \<and> result (snd (getFreeDevices (Raised []) (\<lambda>i. []) 5 [''B'', ''A'', ''Z''] example_registry)) = [''B'']
   \<and> result (snd (getFreeDevices (Raised []) (\<lambda>i. []) 1 [] example_registry)) = [''B'']
   \<and> get_device example_registry ''B'' = Some (new_Device ''B'' \<lparr>state = ''device'', props = []\<rparr>)"
  using lease_returns_only_eligible[of example_registry "[''B'', ''A'', ''Z'']" "Raised []" "\<lambda>i. []" 5]
    lease_returns_only_eligible[of example_registry "[]" "Raised []" "\<lambda>i. []" 1]
  by (simp add: example_registry_def registry_ok_def new_Device_def getFreeDevices_def scanned_registry_def get_device_def)

text \<open>
  Claim C5. The lease returns the error \<^verbatim>\<open>No free devices\<close> exactly when the list
  of devices it may take is empty, that is when no device is eligible or the wish list is
  empty and the count is 0; otherwise the error is empty. It returns exactly the devices
  it may take. With an empty wish list, at least one free device and fewer free devices
  than the count, it succeeds and returns all free devices.
\<close>

theorem lease_error_iff_nothing_leasable:
  "((error (snd (getFreeDevices out getprop n wish reg)) = ''No free devices'')
       = (leasable n wish (scanned_registry out getprop reg) = []))
   \<and> ((leasable n wish (scanned_registry out getprop reg) = [])
       = (eligible wish (scanned_registry out getprop reg) = [] \<or> (wish = [] \<and> n = 0)))
   \<and> result (snd (getFreeDevices out getprop n wish reg)) = leasable n wish (scanned_registry out getprop reg)
   \<and> (error (snd (getFreeDevices out getprop n wish reg)) = ''No free devices''
       \<or> error (snd (getFreeDevices out getprop n wish reg)) = [])
   \<and> (wish = [] \<and> 0 < length (eligible [] (scanned_registry out getprop reg))
        \<and> int (length (eligible [] (scanned_registry out getprop reg))) < n
       \<longrightarrow> error (snd (getFreeDevices out getprop n wish reg)) = []
           \<and> result (snd (getFreeDevices out getprop n wish reg)) = eligible [] (scanned_registry out getprop reg))"
  by (auto simp: getFreeDevices_result getFreeDevices_error leasable_def)

theorem lease_error_iff_nothing_leasable_witness:
  "eligible [] (scanned_registry (Raised []) (\<lambda>i. []) example_registry) = [''B'', ''C'']
   \<and> snd (getFreeDevices (Raised []) (\<lambda>i. []) 3 [] example_registry) = \<lparr>result = [''B'', ''C''], error = []\<rparr>"
  using lease_error_iff_nothing_leasable[of "Raised []" "\<lambda>i. []" 3 "[]" example_registry]
  by (simp add: example_registry_def new_Device_def getFreeDevices_def scanned_registry_def eligible_def)

lemma fresh_not_in_use:
  "list_all (\<lambda>kv. \<not> in_use (snd kv)) reg \<Longrightarrow> list_all (\<lambda>kv. \<not> in_use (snd kv)) (getAdbDevices_add devices reg)"
  unfolding getAdbDevices_add_def
  by (induction devices arbitrary: reg) (auto simp: add_device_def new_Device_def)

lemma refresh_empty_not_in_use:
  "filter (\<lambda>kv. in_use (snd kv)) (fst (getAdbDevices out getprop [])) = []"
proof (cases "get_all_devices out getprop")
  case (Inl e)
  then show ?thesis by (simp add: getAdbDevices_def)
next
  case (Inr devices)
  have "list_all (\<lambda>kv. \<not> in_use (snd kv)) (getAdbDevices_add devices [])"
    by (rule fresh_not_in_use) simp
  then show ?thesis using Inr
    by (simp add: getAdbDevices_def getAdbDevices_remove_filter Let_def list_all_iff filter_empty_conv)
qed

text \<open>
  Claim C10. With the count 0 and an empty wish list the lease returns the error
  \<^verbatim>\<open>No free devices\<close> and an empty list, whatever the registry holds; the registry
  after the call is the one the scan ran on, and the devices in use after the call are
  those in use before it.
\<close>

theorem lease_zero_count:
  "snd (getFreeDevices out getprop 0 [] reg) = \<lparr>result = [], error = ''No free devices''\<rparr>
   \<and> fst (getFreeDevices out getprop 0 [] reg) = scanned_registry out getprop reg
   \<and> filter (\<lambda>kv. in_use (snd kv)) (fst (getFreeDevices out getprop 0 [] reg))
       = filter (\<lambda>kv. in_use (snd kv)) reg"
proof -
  have "filter (\<lambda>kv. in_use (snd kv)) (scanned_registry out getprop reg) = filter (\<lambda>kv. in_use (snd kv)) reg"
    by (cases "reg = []") (simp_all add: scanned_registry_def refresh_empty_not_in_use)
  then show ?thesis by (simp add: getFreeDevices_def loop_zero)
qed

text \<open>
  Claim C6. Whenever the enumeration gives a result, a device of the registry whose id the
  result does not hold is gone after the refresh, whether it was in use or not.
\<close>

theorem refresh_deletes_absent:
  "get_all_devices out getprop = Inr devices \<Longrightarrow> i \<in> set (map fst reg) \<Longrightarrow> i \<notin> set (map fst devices)
   \<Longrightarrow> get_device (fst (getAdbDevices out getprop reg)) i = None
       \<and> i \<notin> set (map fst (fst (getAdbDevices out getprop reg)))"
proof -
  assume enum: "get_all_devices out getprop = Inr devices" and "i \<notin> set (map fst devices)"
  then have "i \<notin> set (map fst (filter (\<lambda>kv. fst kv \<in> set (map fst devices)) (getAdbDevices_add devices reg)))"
    by auto
  then show ?thesis using enum
    by (simp add: getAdbDevices_def getAdbDevices_remove_filter Let_def get_device_def)
qed

theorem refresh_deletes_absent_witness:
  "get_all_devices (Completed example_adb_devices []) (\<lambda>i. []) =
     Inr [(''X'', \<lparr>state = ''unauthorized'', props = []\<rparr>), (''B'', \<lparr>state = ''device'', props = []\<rparr>),
          (''D'', \<lparr>state = ''device'', props = []\<rparr>)]
   \<and> (\<exists>d. get_device example_registry ''A'' = Some d \<and> in_use d)
   \<and> get_device (fst (getAdbDevices (Completed example_adb_devices []) (\<lambda>i. []) example_registry)) ''A'' = None
   \<and> (\<exists>d. get_device example_registry ''C'' = Some d \<and> \<not> in_use d)
   \<and> get_device (fst (getAdbDevices (Completed example_adb_devices []) (\<lambda>i. []) example_registry)) ''C'' = None"
proof -
  have e: "get_all_devices (Completed example_adb_devices []) (\<lambda>i. []) =
     Inr [(''X'', \<lparr>state = ''unauthorized'', props = []\<rparr>), (''B'', \<lparr>state = ''device'', props = []\<rparr>),
          (''D'', \<lparr>state = ''device'', props = []\<rparr>)]"
    by (simp add: get_all_devices_def example_adb_devices_def fetch_properties_def py_strip_def
          py_isspace_def VALID_DEVICE_STATES_def)
  have a: "''A'' \<in> set (map fst example_registry)" and c: "''C'' \<in> set (map fst example_registry)"
    by (simp_all add: example_registry_def)
  show ?thesis
    using e refresh_deletes_absent[OF e a] refresh_deletes_absent[OF e c]
    by (simp add: example_registry_def new_Device_def get_device_def)
qed

lemma get_all_devices_states:
  assumes "get_all_devices out getprop = Inr devices"
  shows "list_all (\<lambda>kv. state (snd kv) \<in> set VALID_DEVICE_STATES) devices"
proof (cases out)
  case (Completed stdout stderr)
  have "list_all (\<lambda>kv. state (snd kv) \<in> set VALID_DEVICE_STATES)
          (parse_device_lines (py_split CHR 0x0A stdout) [])"
    by (rule parse_states) simp
  then show ?thesis using assms Completed
    by (force simp: get_all_devices_def fetch_properties_def list_all_iff)
next
  case (TimeoutExpired e)
  then show ?thesis using assms by (auto simp: get_all_devices_def)
next
  case (Raised e)
  then show ?thesis using assms by (auto simp: get_all_devices_def)
qed

text \<open>
  Claim C4, amended. A refresh never changes the record of a device that is in the
  registry and in the enumeration. An enumerated device that is not in the registry gets
  a fresh record when its state is \<^verbatim>\<open>device\<close> (online), and no record otherwise.
  The enumeration itself holds devices in the states \<^verbatim>\<open>device\<close> and
  \<^verbatim>\<open>unauthorized\<close> only.
\<close>

theorem refresh_adds_online_only:
  assumes "registry_ok reg" and "get_all_devices out getprop = Inr devices"
  shows "(\<forall>i d. get_device reg i = Some d \<and> i \<in> set (map fst devices)
             \<longrightarrow> get_device (fst (getAdbDevices out getprop reg)) i = Some d)
       \<and> (\<forall>i p. (i, p) \<in> set devices \<and> get_device reg i = None
             \<longrightarrow> get_device (fst (getAdbDevices out getprop reg)) i
                  = (if state p = ''device'' then Some (new_Device i p) else None))
       \<and> (\<forall>kv \<in> set devices. state (snd kv) = ''device'' \<or> state (snd kv) = ''unauthorized'')"
proof -
  have dist: "distinct (map fst devices)" using assms(2) by (rule get_all_devices_distinct)
  have reg': "fst (getAdbDevices out getprop reg) = filter (\<lambda>kv. fst kv \<in> set (map fst devices)) (getAdbDevices_add devices reg)"
    using assms(2) by (simp add: getAdbDevices_def getAdbDevices_remove_filter Let_def)
  have a: "\<forall>i d. get_device reg i = Some d \<and> i \<in> set (map fst devices)
             \<longrightarrow> get_device (fst (getAdbDevices out getprop reg)) i = Some d"
    by (auto simp: reg' get_device_map_of map_of_filter_keys getAdbDevices_add_old)
  have b: "\<forall>i p. (i, p) \<in> set devices \<and> get_device reg i = None
             \<longrightarrow> get_device (fst (getAdbDevices out getprop reg)) i
                  = (if state p = ''device'' then Some (new_Device i p) else None)"
  proof (intro allI impI)
    fix i p assume h: "(i, p) \<in> set devices \<and> get_device reg i = None"
    then have m: "map_of devices i = Some p" using dist by simp
    have k: "i \<in> set (map fst devices)" using h by force
    have "map_of reg i = None" using h by (simp add: get_device_map_of)
    then have "map_of (getAdbDevices_add devices reg) i =
        (case map_of devices i of None \<Rightarrow> None
         | Some p \<Rightarrow> if state p = ''device'' then Some (new_Device i p) else None)"
      using dist by (rule getAdbDevices_add_new)
    then have "map_of (getAdbDevices_add devices reg) i =
        (if state p = ''device'' then Some (new_Device i p) else None)"
      by (simp only: m option.case)
    then show "get_device (fst (getAdbDevices out getprop reg)) i
                  = (if state p = ''device'' then Some (new_Device i p) else None)"
      using k by (simp add: reg' get_device_map_of map_of_filter_keys)
  qed
  have "list_all (\<lambda>kv. state (snd kv) \<in> set VALID_DEVICE_STATES) devices"
    using assms(2) by (rule get_all_devices_states)
  then have c: "\<forall>kv \<in> set devices. state (snd kv) = ''device'' \<or> state (snd kv) = ''unauthorized''"
    by (auto simp: list_all_iff VALID_DEVICE_STATES_def)
  show ?thesis using a b c by blast
qed

theorem refresh_adds_online_only_witness:
  "registry_ok example_registry
   \<and> get_all_devices (Completed example_adb_devices []) (\<lambda>i. []) =
     Inr [(''X'', \<lparr>state = ''unauthorized'', props = []\<rparr>), (''B'', \<lparr>state = ''device'', props = []\<rparr>),
          (''D'', \<lparr>state = ''device'', props = []\<rparr>)]
   \<and> get_device (fst (getAdbDevices (Completed example_adb_devices []) (\<lambda>i. []) example_registry)) ''D''
        = Some (new_Device ''D'' \<lparr>state = ''device'', props = []\<rparr>)
   \<and> get_device (fst (getAdbDevices (Completed example_adb_devices []) (\<lambda>i. []) example_registry)) ''X'' = None
   \<and> get_device (fst (getAdbDevices (Completed example_adb_devices []) (\<lambda>i. []) example_registry)) ''B''
        = get_device example_registry ''B''"
proof -
  have e: "get_all_devices (Completed example_adb_devices []) (\<lambda>i. []) =
     Inr [(''X'', \<lparr>state = ''unauthorized'', props = []\<rparr>), (''B'', \<lparr>state = ''device'', props = []\<rparr>),
          (''D'', \<lparr>state = ''device'', props = []\<rparr>)]"
    by (simp add: get_all_devices_def example_adb_devices_def fetch_properties_def py_strip_def
          py_isspace_def VALID_DEVICE_STATES_def)
  have ok: "registry_ok example_registry"
    by (simp add: example_registry_def registry_ok_def new_Device_def)
  have g: "get_device example_registry ''D'' = None" "get_device example_registry ''X'' = None"
    "get_device example_registry ''B'' = Some (new_Device ''B'' \<lparr>state = ''device'', props = []\<rparr>)"
    by (simp_all add: example_registry_def get_device_def new_Device_def)
  show ?thesis
    using e ok g refresh_adds_online_only[OF ok e]
    by simp
qed

text \<open>
  An enumerated device in the state \<^verbatim>\<open>unauthorized\<close>, which \<^verbatim>\<open>VALID_DEVICE_STATES\<close>
  holds, gets no record: the registry stays empty.
\<close>

theorem refresh_skips_unauthorized:
  "get_all_devices (Completed (''X'' @ [CHR 0x09] @ ''unauthorized'') []) (\<lambda>i. [])
     = Inr [(''X'', \<lparr>state = ''unauthorized'', props = []\<rparr>)]
   \<and> ''unauthorized'' \<in> set VALID_DEVICE_STATES
   \<and> fst (getAdbDevices (Completed (''X'' @ [CHR 0x09] @ ''unauthorized'') []) (\<lambda>i. []) []) = []"
  by (simp add: get_all_devices_def fetch_properties_def py_strip_def py_isspace_def VALID_DEVICE_STATES_def
       getAdbDevices_def getAdbDevices_add_def getAdbDevices_remove_def)

section \<open>Install, uninstall, run and kill against the tool\<close>

lemma py_in_sublist: "py_in sub s = sublist sub s"
  by (induction s) (auto simp: sublist_Cons_right)

lemma is_package_installed_resolvable:
  "fst (is_package_installed h self pname w) =
     package_resolvable pname (fst (fst (exec_adb h self [''shell'', ''pm'', ''list'', ''packages''] w)))"
  by (auto simp: is_package_installed_def package_resolvable_def py_in_sublist list_ex_iff split: prod.splits)

lemma uninstall_apk_explicit:
  "uninstall_apk h self (Some p) w =
     (True, self, snd (exec_adb h self [''uninstall'', p] (logcat_msg h self (''Uninstall: '' @ p) w)))"
  by (simp add: uninstall_apk_def)

lemma put_device_lookup:
  "map_of reg did = Some dev \<Longrightarrow> map_of (put_device did dev' reg) did = Some dev'"
  by (induction reg) (auto simp: put_device_def split: if_splits)

lemma install_apk_verified:
  "fst (fst (install_apk h self fname w)) = (\<not> install_verified h self fname w)
   \<and> last_installed_app (fst (snd (install_apk h self fname w))) =
       (if install_verified h self fname w then get_package_name h fname w else last_installed_app self)
   \<and> (snd (fst (install_apk h self fname w)) = []) = install_verified h self fname w"
proof (cases "path_exists h fname w")
  case False
  then show ?thesis by (simp add: install_apk_def install_verified_def)
next
  case True
  show ?thesis
  proof (cases "get_package_name h fname w")
    case None
    then show ?thesis using True by (simp add: install_apk_def install_verified_def)
  next
    case (Some pname)
    have v: "install_verified h self fname w
        = fst (is_package_installed h self pname (snd (install_outcome h self fname pname w)))"
      using True Some
      by (simp add: install_verified_def install_listing_def is_package_installed_resolvable)
    show ?thesis
      unfolding v using True Some
      by (auto simp: install_apk_def uninstall_apk_explicit install_outcome_def split: prod.splits)
  qed
qed

lemma installApp_installs:
  assumes "path_exists h (py_joinpath (rel_dir h) server_file) w"
    and "path_suffix h (py_joinpath (rel_dir h) server_file) = ''.apk''"
    and "(if sign_file then sign_apk h (py_joinpath (rel_dir h) server_file) w
          else (Some (py_joinpath (rel_dir h) server_file), w)) = (Some signed_file, w1)"
    and "get_device reg did = Some dev"
  shows "installApp h did server_file sign_file reg w =
     (case install_apk h dev signed_file w1 of
        ((e, msg), dev', w') \<Rightarrow>
          (\<lparr>result = \<not> e, error = (if e then msg else [])\<rparr>, put_device did dev' reg, w'))"
  using assms by (auto simp: installApp_def Let_def split: prod.splits)

lemma installApp_refuses:
  assumes "\<not> path_exists h (py_joinpath (rel_dir h) server_file) w
      \<or> path_suffix h (py_joinpath (rel_dir h) server_file) \<noteq> ''.apk''
      \<or> fst (if sign_file then sign_apk h (py_joinpath (rel_dir h) server_file) w
               else (Some (py_joinpath (rel_dir h) server_file), w)) = None
      \<or> get_device reg did = None"
  shows "error (fst (installApp h did server_file sign_file reg w)) \<noteq> []
     \<and> \<not> result (fst (installApp h did server_file sign_file reg w))
     \<and> fst (snd (installApp h did server_file sign_file reg w)) = reg"
  using assms
  by (cases sign_file; cases "sign_apk h (py_joinpath (rel_dir h) server_file) w")
     (auto simp: installApp_def Let_def split: prod.splits option.splits)

lemma noisy_install:
  "install_apk noisy_host example_device ''/srv/app.apk'' ()
     = ((False, []), example_device\<lparr>last_installed_app := Some ''com.example.app''\<rparr>, ())"
  by (simp add: install_apk_def noisy_host_def example_device_def new_Device_def uninstall_apk_def
        logcat_msg_def exec_adb_def ADB_BIN_def is_package_installed_def py_lower_def py_lower_char_def char_of_def bit_Suc_0_iff)

lemma noisy_stderr:
  "snd (fst (install_outcome noisy_host example_device ''/srv/app.apk'' ''com.example.app'' ()))
     = Some ''All files should be loaded. Notifying the device.''"
  by (simp add: install_outcome_def noisy_host_def example_device_def new_Device_def uninstall_apk_def
        logcat_msg_def exec_adb_def ADB_BIN_def)

text \<open>
  Claim C7. \<^verbatim>\<open>install_apk\<close> reports success exactly when the package name is found,
  ignoring case, in a line of the package listing taken after the install command, and
  an error otherwise; what the install command itself returned plays no part. It sets
  \<^verbatim>\<open>last_installed_app\<close> to the package name exactly in that case and leaves it as
  it was otherwise. \<^verbatim>\<open>installApp\<close>, with or without signing, does the same for the
  file it installs (the signed file when signing is asked for): for an existing
  \<^verbatim>\<open>.apk\<close> file, a signing step that gives a file and a known device, it answers with
  an empty error exactly when the package is found in the listing, and the record in the
  registry carries \<^verbatim>\<open>last_installed_app\<close> accordingly; when the file is missing, is
  no \<^verbatim>\<open>.apk\<close>, cannot be signed or the device is unknown, it answers with an error
  and leaves the registry as it was.
\<close>

theorem install_verified_by_listing:
  "fst (fst (install_apk h self fname w)) = (\<not> install_verified h self fname w)
   \<and> last_installed_app (fst (snd (install_apk h self fname w))) =
       (if install_verified h self fname w then get_package_name h fname w else last_installed_app self)
   \<and> (path_exists h (py_joinpath (rel_dir h) server_file) w
       \<and> path_suffix h (py_joinpath (rel_dir h) server_file) = ''.apk''
       \<and> (if sign_file then sign_apk h (py_joinpath (rel_dir h) server_file) w
            else (Some (py_joinpath (rel_dir h) server_file), w)) = (Some signed_file, w1)
       \<and> get_device reg did = Some dev
      \<longrightarrow> (error (fst (installApp h did server_file sign_file reg w)) = [])
            = install_verified h dev signed_file w1
        \<and> result (fst (installApp h did server_file sign_file reg w))
            = install_verified h dev signed_file w1
        \<and> map_option last_installed_app (get_device (fst (snd (installApp h did server_file sign_file reg w))) did)
            = Some (if install_verified h dev signed_file w1
                    then get_package_name h signed_file w1
                    else last_installed_app dev))
   \<and> (\<not> path_exists h (py_joinpath (rel_dir h) server_file) w
       \<or> path_suffix h (py_joinpath (rel_dir h) server_file) \<noteq> ''.apk''
       \<or> fst (if sign_file then sign_apk h (py_joinpath (rel_dir h) server_file) w
                else (Some (py_joinpath (rel_dir h) server_file), w)) = None
       \<or> get_device reg did = None
      \<longrightarrow> error (fst (installApp h did server_file sign_file reg w)) \<noteq> []
        \<and> \<not> result (fst (installApp h did server_file sign_file reg w))
        \<and> fst (snd (installApp h did server_file sign_file reg w)) = reg)"
proof -
  let ?f = "py_joinpath (rel_dir h) server_file"
  have a: "fst (fst (install_apk h self fname w)) = (\<not> install_verified h self fname w)
   \<and> last_installed_app (fst (snd (install_apk h self fname w))) =
       (if install_verified h self fname w then get_package_name h fname w else last_installed_app self)"
    using install_apk_verified[of h self fname w] by simp
  have b: "(error (fst (installApp h did server_file sign_file reg w)) = []) = install_verified h dev signed_file w1
        \<and> result (fst (installApp h did server_file sign_file reg w)) = install_verified h dev signed_file w1
        \<and> map_option last_installed_app (get_device (fst (snd (installApp h did server_file sign_file reg w))) did)
            = Some (if install_verified h dev signed_file w1 then get_package_name h signed_file w1
                    else last_installed_app dev)"
    if h1: "path_exists h ?f w" and h2: "path_suffix h ?f = ''.apk''"
      and h3: "(if sign_file then sign_apk h ?f w else (Some ?f, w)) = (Some signed_file, w1)"
      and h4: "get_device reg did = Some dev"
  proof -
    obtain e msg dev' w' where i: "install_apk h dev signed_file w1 = ((e, msg), dev', w')"
      by (cases "install_apk h dev signed_file w1") auto
    have r: "installApp h did server_file sign_file reg w
        = (\<lparr>result = \<not> e, error = (if e then msg else [])\<rparr>, put_device did dev' reg, w')"
      using installApp_installs[OF h1 h2 h3 h4] i by simp
    have g: "get_device (put_device did dev' reg) did = Some dev'"
      using h4 by (simp add: get_device_map_of put_device_lookup)
    show ?thesis
      using install_apk_verified[of h dev signed_file w1] i r g by auto
  qed
  have c: "\<not> path_exists h ?f w \<or> path_suffix h ?f \<noteq> ''.apk''
       \<or> fst (if sign_file then sign_apk h ?f w else (Some ?f, w)) = None
       \<or> get_device reg did = None
      \<longrightarrow> error (fst (installApp h did server_file sign_file reg w)) \<noteq> []
        \<and> \<not> result (fst (installApp h did server_file sign_file reg w))
        \<and> fst (snd (installApp h did server_file sign_file reg w)) = reg"
    using installApp_refuses[of h server_file w sign_file reg did] by blast
  show ?thesis using a b c by blast
qed

theorem install_verified_by_listing_witness:
  "snd (fst (install_outcome noisy_host example_device ''/srv/app.apk'' ''com.example.app'' ()))
      = Some ''All files should be loaded. Notifying the device.''
   \<and> install_verified noisy_host example_device ''/srv/app.apk'' ()
   \<and> path_exists noisy_host (py_joinpath (rel_dir noisy_host) ''app.apk'') ()
   \<and> path_suffix noisy_host (py_joinpath (rel_dir noisy_host) ''app.apk'') = ''.apk''
   \<and> sign_apk noisy_host (py_joinpath (rel_dir noisy_host) ''app.apk'') () = (Some ''/srv/app.apk'', ())
   \<and> get_device [(''B'', example_device)] ''B'' = Some example_device
   \<and> fst (install_apk noisy_host example_device ''/srv/app.apk'' ()) = (False, [])
   \<and> last_installed_app (fst (snd (install_apk noisy_host example_device ''/srv/app.apk'' ()))) = Some ''com.example.app''
   \<and> fst (installApp noisy_host ''B'' ''app.apk'' True [(''B'', example_device)] ()) = \<lparr>result = True, error = []\<rparr>
   \<and> map_option last_installed_app
        (get_device (fst (snd (installApp noisy_host ''B'' ''app.apk'' True [(''B'', example_device)] ()))) ''B'')
        = Some (Some ''com.example.app'')
   \<and> \<not> path_exists example_host (py_joinpath (rel_dir example_host) ''app.apk'') ()
   \<and> error (fst (installApp example_host ''B'' ''app.apk'' True [(''B'', example_device)] ())) = ''Appfile not found!''
   \<and> fst (snd (installApp example_host ''B'' ''app.apk'' True [(''B'', example_device)] ())) = [(''B'', example_device)]"
proof -
  have p: "py_joinpath (rel_dir noisy_host) ''app.apk'' = ''/srv/app.apk''"
    by (simp add: py_joinpath_def noisy_host_def)
  have g: "get_device [(''B'', example_device)] ''B'' = Some example_device"
    by (simp add: get_device_def)
  have e: "path_exists noisy_host ''/srv/app.apk'' ()" "path_suffix noisy_host ''/srv/app.apk'' = ''.apk''"
    "get_package_name noisy_host ''/srv/app.apk'' () = Some ''com.example.app''"
    "sign_apk noisy_host ''/srv/app.apk'' () = (Some ''/srv/app.apk'', ())"
    by (simp_all add: noisy_host_def)
  have i: "fst (install_apk noisy_host example_device ''/srv/app.apk'' ()) = (False, [])"
    by (simp add: noisy_install)
  have m: "\<not> path_exists example_host (py_joinpath (rel_dir example_host) ''app.apk'') ()"
    by (simp add: example_host_def)
  have n: "error (fst (installApp example_host ''B'' ''app.apk'' True [(''B'', example_device)] ())) = ''Appfile not found!''"
    by (simp add: installApp_def example_host_def)
  have pos: "fst (installApp noisy_host ''B'' ''app.apk'' True [(''B'', example_device)] ()) = \<lparr>result = True, error = []\<rparr>
      \<and> map_option last_installed_app
        (get_device (fst (snd (installApp noisy_host ''B'' ''app.apk'' True [(''B'', example_device)] ()))) ''B'')
        = Some (Some ''com.example.app'')
      \<and> install_verified noisy_host example_device ''/srv/app.apk'' ()
      \<and> last_installed_app (fst (snd (install_apk noisy_host example_device ''/srv/app.apk'' ()))) = Some ''com.example.app''"
    using install_verified_by_listing[of noisy_host example_device "''/srv/app.apk''" "()" "''app.apk''"
        True "''/srv/app.apk''" "()" "[(''B'', example_device)]" "''B''" example_device]
      p g e i
    by (cases "fst (installApp noisy_host ''B'' ''app.apk'' True [(''B'', example_device)] ())") auto
  have neg: "fst (snd (installApp example_host ''B'' ''app.apk'' True [(''B'', example_device)] ())) = [(''B'', example_device)]"
    using install_verified_by_listing[of example_host example_device "''/srv/app.apk''" "()" "''app.apk''"
        True "''/srv/app.apk''" "()" "[(''B'', example_device)]" "''B''" example_device]
      m
    by blast
  show ?thesis using pos neg noisy_stderr p g e i m n by simp
qed

text \<open>
  Claim C8, amended. \<^verbatim>\<open>_exec_adb\<close> reports a timeout of the tool call to its caller
  as an empty output with the text of the timeout as standard error. \<^verbatim>\<open>install_apk\<close>
  passes that text on in its error message when the package is then not found. The other
  operations do not report it: \<^verbatim>\<open>uninstall_apk\<close> and \<^verbatim>\<open>run_apk\<close> drop the
  result of the call and return \<^verbatim>\<open>True\<close> whenever they have a package to act on,
  \<^verbatim>\<open>kill_apk\<close> reads it only to choose the forced stop and returns \<^verbatim>\<open>True\<close>
  whenever that package name is not empty, and the package query answers from the empty
  output.
\<close>

theorem timeout_reported_by_exec_adb_only:
  "(run_adb h ([ADB_BIN, ''-s'', dev_id self] @ cmd) w = (TimeoutExpired e, w')
      \<longrightarrow> exec_adb h self cmd w = (([], Some e), w'))
   \<and> (path_exists h fname w \<and> get_package_name h fname w = Some pname
        \<and> install_outcome h self fname pname w = (([], Some e), w')
        \<and> \<not> install_verified h self fname w
      \<longrightarrow> fst (install_apk h self fname w) = (True, ''Could not install App, stderr: '' @ e))
   \<and> fst (uninstall_apk h self (Some pname) w) = True
   \<and> fst (uninstall_apk h self None w) = (last_installed_app self \<noteq> None)
   \<and> fst (run_apk h self custom_cmd w) = (last_installed_app self \<noteq> None)
   \<and> fst (kill_apk h self w) = (last_installed_app self \<noteq> None \<and> last_installed_app self \<noteq> Some [])
   \<and> (run_adb h ([ADB_BIN, ''-s'', dev_id self] @ [''shell'', ''pm'', ''list'', ''packages'']) w = (TimeoutExpired e, w')
      \<longrightarrow> is_package_installed h self pname w = (pname = [], w'))"
proof -
  have a: "run_adb h ([ADB_BIN, ''-s'', dev_id self] @ cmd) w = (TimeoutExpired e, w')
      \<longrightarrow> exec_adb h self cmd w = (([], Some e), w')"
    by (simp add: exec_adb_def)
  have b: "path_exists h fname w \<and> get_package_name h fname w = Some pname
        \<and> install_outcome h self fname pname w = (([], Some e), w')
        \<and> \<not> install_verified h self fname w
      \<longrightarrow> fst (install_apk h self fname w) = (True, ''Could not install App, stderr: '' @ e)"
  proof (intro impI)
    assume h: "path_exists h fname w \<and> get_package_name h fname w = Some pname
        \<and> install_outcome h self fname pname w = (([], Some e), w')
        \<and> \<not> install_verified h self fname w"
    then have "\<not> fst (is_package_installed h self pname w')"
      by (auto simp: install_verified_def install_listing_def is_package_installed_resolvable)
    then show "fst (install_apk h self fname w) = (True, ''Could not install App, stderr: '' @ e)"
      using h by (auto simp: install_apk_def uninstall_apk_explicit install_outcome_def split: prod.splits)
  qed
  have c: "fst (uninstall_apk h self (Some pname) w) = True"
    by (simp add: uninstall_apk_def)
  have d: "fst (uninstall_apk h self None w) = (last_installed_app self \<noteq> None)"
    by (simp add: uninstall_apk_def Let_def split: option.splits)
  have f: "fst (run_apk h self custom_cmd w) = (last_installed_app self \<noteq> None)"
    by (simp add: run_apk_def Let_def split: option.splits)
  have g: "fst (kill_apk h self w) = (last_installed_app self \<noteq> None \<and> last_installed_app self \<noteq> Some [])"
    by (simp add: kill_apk_def Let_def split: option.splits prod.splits)
  have i: "run_adb h ([ADB_BIN, ''-s'', dev_id self] @ [''shell'', ''pm'', ''list'', ''packages'']) w = (TimeoutExpired e, w')
      \<longrightarrow> is_package_installed h self pname w = (pname = [], w')"
    by (auto simp: is_package_installed_def exec_adb_def py_lower_def)
  show ?thesis using a b c d f g i by blast
qed

theorem timeout_reported_by_exec_adb_only_witness:
  "run_adb timeout_host ([ADB_BIN, ''-s'', dev_id example_device] @ [''shell'', ''pm'', ''list'', ''packages'']) ()
      = (TimeoutExpired ''timed out after 10 seconds'', ())
   \<and> exec_adb timeout_host example_device [''shell'', ''pm'', ''list'', ''packages''] ()
      = (([], Some ''timed out after 10 seconds''), ())
   \<and> path_exists timeout_host ''/srv/app.apk'' ()
   \<and> get_package_name timeout_host ''/srv/app.apk'' () = Some ''com.example.app''
   \<and> install_outcome timeout_host example_device ''/srv/app.apk'' ''com.example.app'' ()
      = (([], Some ''timed out after 10 seconds''), ())
   \<and> \<not> install_verified timeout_host example_device ''/srv/app.apk'' ()
   \<and> fst (install_apk timeout_host example_device ''/srv/app.apk'' ())
      = (True, ''Could not install App, stderr: timed out after 10 seconds'')
   \<and> is_package_installed timeout_host example_device ''com.example.app'' () = (False, ())"
proof -
  have r: "run_adb timeout_host ([ADB_BIN, ''-s'', dev_id example_device] @ [''shell'', ''pm'', ''list'', ''packages'']) ()
      = (TimeoutExpired ''timed out after 10 seconds'', ())"
    by (simp add: timeout_host_def)
  have p: "path_exists timeout_host ''/srv/app.apk'' ()"
    "get_package_name timeout_host ''/srv/app.apk'' () = Some ''com.example.app''"
    by (simp_all add: timeout_host_def)
  have o: "install_outcome timeout_host example_device ''/srv/app.apk'' ''com.example.app'' ()
      = (([], Some ''timed out after 10 seconds''), ())"
    by (simp add: install_outcome_def timeout_host_def exec_adb_def)
  have v: "\<not> install_verified timeout_host example_device ''/srv/app.apk'' ()"
    by (simp add: install_verified_def install_listing_def package_resolvable_def timeout_host_def exec_adb_def
          py_lower_def)
  show ?thesis
    using r p o v
      timeout_reported_by_exec_adb_only[of timeout_host example_device "[''shell'', ''pm'', ''list'', ''packages'']" "()"
        "''timed out after 10 seconds''" "()" "''/srv/app.apk''" "''com.example.app''" "[]"]
    by simp
qed

text \<open>On a host where every tool call times out, uninstall, run and kill still report success.\<close>

theorem timeout_swallowed_by_operations:
  "run_adb timeout_host [ADB_BIN, ''-s'', ''B'', ''uninstall'', ''com.example.app''] ()
      = (TimeoutExpired ''timed out after 10 seconds'', ())
   \<and> fst (uninstall_apk timeout_host example_device (Some ''com.example.app'') ()) = True
   \<and> fst (uninstall_apk timeout_host (example_device\<lparr>last_installed_app := Some ''com.example.app''\<rparr>) None ()) = True
   \<and> fst (run_apk timeout_host (example_device\<lparr>last_installed_app := Some ''com.example.app''\<rparr>) [] ()) = True
   \<and> fst (kill_apk timeout_host (example_device\<lparr>last_installed_app := Some ''com.example.app''\<rparr>) ()) = True
   \<and> fst (is_package_installed timeout_host example_device ''com.example.app'' ()) = False"
  by (simp add: timeout_host_def example_device_def new_Device_def uninstall_apk_def run_apk_def kill_apk_def
        logcat_msg_def exec_adb_def ADB_BIN_def is_package_installed_def py_lower_def py_lower_char_def py_strip_def
        char_of_def bit_Suc_0_iff)

section \<open>Chunked upload and pull\<close>

lemma read_chunks_concat: "0 < n \<Longrightarrow> concat (read_chunks n content) = content"
proof (induction n content rule: read_chunks.induct)
  case (1 n content)
  show ?case
  proof (cases "content = []")
    case True
    then show ?thesis by (subst read_chunks.simps) simp
  next
    case False
    then have "concat (read_chunks n content) = take n content @ concat (read_chunks n (drop n content))"
      using "1.prems" by (subst read_chunks.simps) simp
    also have "\<dots> = take n content @ drop n content"
      using "1.IH" "1.prems" False by simp
    finally show ?thesis by simp
  qed
qed

lemma read_chunks_Nil: "(read_chunks n content = []) = (n = 0 \<or> content = [])"
  by (subst read_chunks.simps) simp

lemma fold_append_concat: "fold (\<lambda>chunk full. full @ chunk) chunks acc = acc @ concat chunks"
  by (induction chunks arbitrary: acc) auto

lemma utf8_step_bound: "utf8_step b rest = (r, k) \<Longrightarrow> k \<le> length rest"
  by (auto split: if_splits list.splits)

lemma decode_ignore_total: "\<exists>t. utf8_decode_nat Ignore ns = Inr t"
proof (induction ns rule: length_induct)
  case (1 ns)
  show ?case
  proof (cases ns)
    case Nil
    then show ?thesis by simp
  next
    case (Cons b rest)
    obtain r k where s: "utf8_step b rest = (r, k)" by (cases "utf8_step b rest")
    have "length (drop k rest) < length ns" using Cons by simp
    then obtain t' where t': "utf8_decode_nat Ignore (drop k rest) = Inr t'" using 1 by blast
    show ?thesis using s t' Cons by (cases r) (simp_all del: utf8_step.simps)
  qed
qed

lemma decode_strict_ignore:
  "utf8_decode_nat Strict ns = Inr t \<Longrightarrow> utf8_decode_nat Ignore ns = Inr t"
proof (induction ns arbitrary: t rule: length_induct)
  case (1 ns)
  show ?case
  proof (cases ns)
    case Nil
    then show ?thesis using 1 by simp
  next
    case (Cons b rest)
    obtain r k where s: "utf8_step b rest = (r, k)" by (cases "utf8_step b rest")
    show ?thesis
    proof (cases r)
      case None
      then show ?thesis using 1(2) s Cons by (simp del: utf8_step.simps)
    next
      case (Some cp)
      from 1(2) s Some Cons obtain t' where t': "utf8_decode_nat Strict (drop k rest) = Inr t'" "t = cp # t'"
        by (auto simp del: utf8_step.simps split: sum.splits)
      have "length (drop k rest) < length ns" using Cons by simp
      then have "utf8_decode_nat Ignore (drop k rest) = Inr t'" using 1(1) t'(1) by blast
      then show ?thesis using s Some Cons t' by (simp del: utf8_step.simps)
    qed
  qed
qed

lemma digits2:
  assumes "y < 64"
  shows "(x * 64 + y) div 64 = (x::nat)" and "(x * 64 + y) mod 64 = y"
  using assms by simp_all

lemma digit_base:
  assumes "r < 64"
  shows "(r + q * 64) mod 64 = (r::nat)" and "(r + q * 64) div 64 = q"
  using assms by simp_all

lemma digits3:
  assumes "y < 64" "z < 64"
  shows "(x * 4096 + y * 64 + z) div 4096 = (x::nat)"
    and "(x * 4096 + y * 64 + z) div 64 mod 64 = y"
    and "(x * 4096 + y * 64 + z) mod 64 = z"
proof -
  have e: "x * 4096 + y * 64 + z = z + (x * 64 + y) * 64" by simp
  have "y * 64 + z < 4096" using assms by linarith
  then have "(y * 64 + z + x * 4096) div 4096 = x" by simp
  then show "(x * 4096 + y * 64 + z) div 4096 = x" by (simp add: add.commute add.left_commute)
  have "(x * 4096 + y * 64 + z) div 64 = x * 64 + y"
    unfolding e using digit_base(2)[OF assms(2), of "x * 64 + y"] by blast
  then show "(x * 4096 + y * 64 + z) div 64 mod 64 = y" using assms(1) by simp
  show "(x * 4096 + y * 64 + z) mod 64 = z"
    unfolding e using digit_base(1)[OF assms(2), of "x * 64 + y"] by blast
qed

lemma digits4:
  assumes "y < 64" "z < 64" "u < 64"
  shows "(x * 262144 + y * 4096 + z * 64 + u) div 262144 = (x::nat)"
    and "(x * 262144 + y * 4096 + z * 64 + u) div 4096 mod 64 = y"
    and "(x * 262144 + y * 4096 + z * 64 + u) div 64 mod 64 = z"
    and "(x * 262144 + y * 4096 + z * 64 + u) mod 64 = u"
proof -
  have e: "x * 262144 + y * 4096 + z * 64 + u = u + (x * 4096 + y * 64 + z) * 64" by simp
  have e2: "x * 262144 + y * 4096 + z * 64 + u = (z * 64 + u) + (x * 64 + y) * 4096" by simp
  have l2: "z * 64 + u < 4096" using assms by linarith
  have l3: "y * 4096 + z * 64 + u < 262144" using assms by linarith
  then have "(y * 4096 + z * 64 + u + x * 262144) div 262144 = x" by simp
  then show "(x * 262144 + y * 4096 + z * 64 + u) div 262144 = x" by (simp add: add.commute add.left_commute)
  have "(z * 64 + u + (x * 64 + y) * 4096) div 4096 = x * 64 + y" using l2 by simp
  then have "(x * 262144 + y * 4096 + z * 64 + u) div 4096 = x * 64 + y" by (simp only: e2)
  then show "(x * 262144 + y * 4096 + z * 64 + u) div 4096 mod 64 = y" using assms(1) by simp
  have "(x * 262144 + y * 4096 + z * 64 + u) div 64 = x * 4096 + y * 64 + z"
    unfolding e using digit_base(2)[OF assms(3), of "x * 4096 + y * 64 + z"] by blast
  then show "(x * 262144 + y * 4096 + z * 64 + u) div 64 mod 64 = z"
    using digits3(3)[OF assms(1) assms(2), of x] by simp
  show "(x * 262144 + y * 4096 + z * 64 + u) mod 64 = u"
    unfolding e using digit_base(1)[OF assms(3), of "x * 4096 + y * 64 + z"] by blast
qed

lemma enc2:
  assumes "194 \<le> b" "b \<le> 223" "128 \<le> c1" "c1 \<le> 191"
  shows "utf8_encode_cp ((b - 192) * 64 + (c1 - 128)) = [b, (c1::nat)]"
proof -
  define x where "x = b - 192"
  define y where "y = c1 - 128"
  have b: "b = 192 + x" and c: "c1 = 128 + y" and x: "2 \<le> x" "x \<le> 31" and y: "y < 64"
    using assms by (simp_all add: x_def y_def)
  have r: "128 \<le> x * 64 + y" "x * 64 + y < 2048" using x y by linarith+
  show ?thesis using digits2[OF y, of x] r by (simp add: utf8_encode_cp_def b c)
qed

lemma enc3:
  assumes "224 \<le> b" "b \<le> 239" "128 \<le> c1" "c1 \<le> 191" "b = 224 \<longrightarrow> 160 \<le> c1" "128 \<le> c2" "c2 \<le> 191"
  shows "utf8_encode_cp ((b - 224) * 4096 + (c1 - 128) * 64 + (c2 - 128)) = [b, c1, (c2::nat)]"
proof -
  define x where "x = b - 224"
  define y where "y = c1 - 128"
  define z where "z = c2 - 128"
  have b: "b = 224 + x" and c: "c1 = 128 + y" "c2 = 128 + z" and x: "x \<le> 15" and y: "y < 64" and z: "z < 64"
    and xy: "x = 0 \<longrightarrow> 32 \<le> y"
    using assms by (auto simp: x_def y_def z_def)
  have r: "2048 \<le> x * 4096 + y * 64 + z" "x * 4096 + y * 64 + z < 65536" using x y z xy by (cases "x = 0"; linarith)+
  show ?thesis using digits3[OF y z, of x] r by (simp add: utf8_encode_cp_def b c)
qed

lemma enc4:
  assumes "240 \<le> b" "b \<le> 244" "128 \<le> c1" "c1 \<le> 191" "b = 240 \<longrightarrow> 144 \<le> c1"
    "128 \<le> c2" "c2 \<le> 191" "128 \<le> c3" "c3 \<le> 191"
  shows "utf8_encode_cp ((b - 240) * 262144 + (c1 - 128) * 4096 + (c2 - 128) * 64 + (c3 - 128)) = [b, c1, c2, (c3::nat)]"
proof -
  define x where "x = b - 240"
  define y where "y = c1 - 128"
  define z where "z = c2 - 128"
  define u where "u = c3 - 128"
  have b: "b = 240 + x" and c: "c1 = 128 + y" "c2 = 128 + z" "c3 = 128 + u"
    and y: "y < 64" and z: "z < 64" and u: "u < 64" and xy: "x = 0 \<longrightarrow> 16 \<le> y"
    using assms by (auto simp: x_def y_def z_def u_def)
  have r: "65536 \<le> x * 262144 + y * 4096 + z * 64 + u" using y z u xy by (cases "x = 0"; linarith)
  show ?thesis using digits4[OF y z u, of x] r by (simp add: utf8_encode_cp_def b c)
qed

lemma utf8_step_encode:
  assumes "utf8_step b rest = (Some cp, k)"
  shows "utf8_encode_cp cp = b # take k rest"
proof -
  consider (one) "b < 128" | (two) "194 \<le> b \<and> b \<le> 223" | (three) "224 \<le> b \<and> b \<le> 239"
    | (four) "240 \<le> b \<and> b \<le> 244" | (bad) "(128 \<le> b \<and> b < 194) \<or> 244 < b"
    by linarith
  then show ?thesis
  proof cases
    case one
    then show ?thesis using assms by (simp add: utf8_encode_cp_def)
  next
    case two
    then show ?thesis using assms enc2[of b]
      by (auto simp: is_cont_def split: list.splits if_splits)
  next
    case three
    then show ?thesis using assms enc3[of b]
      by (auto simp: is_cont_def split: list.splits if_splits)
  next
    case four
    then show ?thesis using assms enc4[of b]
      by (auto simp: is_cont_def split: list.splits if_splits)
  next
    case bad
    then show ?thesis using assms by auto
  qed
qed

lemma decode_strict_roundtrip:
  "utf8_decode_nat Strict ns = Inr t \<Longrightarrow> concat (map utf8_encode_cp t) = ns"
proof (induction ns arbitrary: t rule: length_induct)
  case (1 ns)
  show ?case
  proof (cases ns)
    case Nil
    then show ?thesis using 1 by simp
  next
    case (Cons b rest)
    obtain r k where s: "utf8_step b rest = (r, k)" by (cases "utf8_step b rest")
    show ?thesis
    proof (cases r)
      case None
      then show ?thesis using 1(2) s Cons by (simp del: utf8_step.simps)
    next
      case (Some cp)
      from 1(2) s Some Cons obtain t' where t': "utf8_decode_nat Strict (drop k rest) = Inr t'" "t = cp # t'"
        by (auto simp del: utf8_step.simps split: sum.splits)
      have "length (drop k rest) < length ns" using Cons by simp
      then have "concat (map utf8_encode_cp t') = drop k rest" using 1(1) t'(1) by blast
      moreover have "utf8_encode_cp cp = b # take k rest" using s Some by (intro utf8_step_encode) simp
      ultimately show ?thesis using Cons t' by simp
    qed
  qed
qed

lemma utf8_decode_ignore_total: "\<exists>t. utf8_decode Ignore bs = Inr t"
  by (simp add: utf8_decode_def decode_ignore_total)

lemma utf8_decode_ignore_not_Inl: "utf8_decode Ignore bs \<noteq> Inl e"
  using utf8_decode_ignore_total[of bs] by auto

lemma utf8_strict_roundtrip:
  assumes "utf8_decode Strict bs = Inr t"
  shows "utf8_decode Ignore bs = Inr t \<and> utf8_encode t = bs"
proof -
  have "concat (map utf8_encode_cp t) = map unat bs"
    using assms by (simp add: utf8_decode_def decode_strict_roundtrip)
  then have "utf8_encode t = map of_nat (map unat bs)" by (simp add: utf8_encode_def)
  then have "utf8_encode t = bs" by (simp add: comp_def)
  then show ?thesis using assms by (simp add: utf8_decode_def decode_strict_ignore)
qed

lemma CHUNK_SIZE_pos: "0 < CHUNK_SIZE"
  by (simp add: CHUNK_SIZE_def)

lemma generator_payload:
  "concat (map chunk_data (file_chunk_generator name content path)) = content"
  by (simp add: file_chunk_generator_def comp_def read_chunks_concat CHUNK_SIZE_pos)

lemma generator_Nil: "(file_chunk_generator name content path = []) = (content = [])"
  by (simp add: file_chunk_generator_def read_chunks_Nil CHUNK_SIZE_def)

lemma UploadFile_generator:
  "UploadFile rel io_ok (file_chunk_generator name content path) fs =
     (if content = [] then (Inl StopIteration, fs)
      else if \<not> io_ok then (Inl (OSError ''mkdir/open''), fs)
      else (Inr ''OK'', fs(py_joinpath (py_joinpath rel path) name \<mapsto> content)))"
proof (cases "file_chunk_generator name content path")
  case Nil
  then show ?thesis using generator_Nil[of name content path] by (simp add: UploadFile_def)
next
  case (Cons first requests)
  have ne: "content \<noteq> []" using Cons generator_Nil[of name content path] by auto
  have "first \<in> set (file_chunk_generator name content path)" using Cons by simp
  then have f: "filename first = name" "storage_path first = path"
    by (auto simp: file_chunk_generator_def)
  have "chunk_data first @ concat (map chunk_data requests) = content"
    using generator_payload[of name content path] Cons by simp
  then show ?thesis using Cons ne f by (simp add: UploadFile_def)
qed

lemma pull_file_outcomes:
  "pull_file net fs name =
     (if net = Delivered then
        (case fs name of
           None \<Rightarrow> Inl (RpcFailed ''StatusCode.NOT_FOUND, File not found'')
         | Some content \<Rightarrow>
             (case utf8_decode Ignore content of Inl e \<Rightarrow> Inl (DecodeFailed e) | Inr t \<Rightarrow> Inr t))
      else Inl (RpcFailed ''StatusCode.UNAVAILABLE''))"
  by (cases net)
     (auto simp: pull_file_def PullFile_def fold_append_concat read_chunks_concat CHUNK_SIZE_pos
        split: option.splits sum.splits)

lemma read_chunks_small:
  assumes "content \<noteq> []" and "length content \<le> n"
  shows "read_chunks n content = [content]"
proof -
  have "0 < n" using assms by (cases content) auto
  then show ?thesis using assms
    by (subst read_chunks.simps, subst read_chunks.simps) auto
qed

lemma read_chunks_large: "0 < n \<Longrightarrow> n < length content \<Longrightarrow> 2 \<le> length (read_chunks n content)"
  by (subst read_chunks.simps, subst read_chunks.simps) auto

lemma upload_file_outcomes:
  "upload_file net rel io_ok name content path fs =
     (if net = Delivered \<and> io_ok \<and> content \<noteq> []
      then (True, fs(py_joinpath (py_joinpath rel path) name \<mapsto> content))
      else if net = ResponseLost \<and> io_ok \<and> content \<noteq> []
      then (False, fs(py_joinpath (py_joinpath rel path) name \<mapsto> content))
      else (False, fs))"
  by (cases net) (simp_all add: upload_file_def UploadFile_generator)

text \<open>
  Claim C9, amended. \<^verbatim>\<open>pull_file\<close> never reports a decode error: it decodes with
  the error handler \<^verbatim>\<open>ignore\<close>, which succeeds on every content. When the call goes
  through and the file exists it returns the decoded text; its only errors are those of
  the call (the file is missing, or the transport failed), and the error of
  \<^verbatim>\<open>GRPCClient.pull_file\<close> is never a decode error either.
\<close>

theorem pull_never_reports_decode_error:
  "(\<forall>m. pull_file net fs name \<noteq> Inl (DecodeFailed m))
   \<and> (\<exists>t. utf8_decode Ignore content = Inr t)
   \<and> (net = Delivered \<and> fs name = Some content
        \<longrightarrow> (\<exists>t. utf8_decode Ignore content = Inr t \<and> pull_file net fs name = Inr t))
   \<and> (net = Delivered \<and> fs name = None
        \<longrightarrow> pull_file net fs name = Inl (RpcFailed ''StatusCode.NOT_FOUND, File not found''))
   \<and> (net \<noteq> Delivered \<longrightarrow> pull_file net fs name = Inl (RpcFailed ''StatusCode.UNAVAILABLE''))
   \<and> (\<forall>m. err (fst (client_pull_file c h name s)) \<noteq> Some (''Decode Error: '' @ m))"
proof -
  have tot: "\<And>bs. \<exists>t. utf8_decode Ignore bs = Inr t" by (rule utf8_decode_ignore_total)
  have a: "\<forall>m. pull_file net fs name \<noteq> Inl (DecodeFailed m)"
    by (auto simp: pull_file_outcomes utf8_decode_ignore_not_Inl split: option.splits sum.splits)
  have b: "net = Delivered \<and> fs name = Some content
      \<longrightarrow> (\<exists>t. utf8_decode Ignore content = Inr t \<and> pull_file net fs name = Inr t)"
    using tot[of content] by (auto simp: pull_file_outcomes)
  have d: "\<forall>m. err (fst (client_pull_file c h name s)) \<noteq> Some (''Decode Error: '' @ m)"
  proof
    fix m
    show "err (fst (client_pull_file c h name s)) \<noteq> Some (''Decode Error: '' @ m)"
      by (auto simp: client_pull_file_def pull_file_outcomes utf8_decode_ignore_not_Inl
            split: option.splits sum.splits pull_error.splits if_splits)
  qed
  show ?thesis using a b d tot[of content] by (simp add: pull_file_outcomes)
qed

theorem pull_never_reports_decode_error_witness:
  "(\<lambda>n. if n = ''logcat'' then Some [0x68, 0xFF, 0x69 :: 8 word] else None) ''logcat'' = Some [0x68, 0xFF, 0x69]
   \<and> utf8_decode Strict [0x68, 0xFF, 0x69] = Inl ''UnicodeDecodeError''
   \<and> utf8_decode Ignore [0x68, 0xFF, 0x69] = Inr [104, 105]
   \<and> pull_file Delivered (\<lambda>n. if n = ''logcat'' then Some [0x68, 0xFF, 0x69] else None) ''logcat'' = Inr [104, 105]"
proof -
  have d: "utf8_decode Ignore [0x68, 0xFF, 0x69] = Inr [104, 105]"
    "utf8_decode Strict [0x68, 0xFF, 0x69] = Inl ''UnicodeDecodeError''"
    by (simp_all add: utf8_decode_def)
  have "Delivered = Delivered \<and> (\<lambda>n. if n = ''logcat'' then Some [0x68, 0xFF, 0x69 :: 8 word] else None) ''logcat''
      = Some [0x68, 0xFF, 0x69]"
    by simp
  then have "\<exists>t. utf8_decode Ignore [0x68, 0xFF, 0x69] = Inr t
      \<and> pull_file Delivered (\<lambda>n. if n = ''logcat'' then Some [0x68, 0xFF, 0x69] else None) ''logcat'' = Inr t"
    using pull_never_reports_decode_error[of Delivered
        "\<lambda>n. if n = ''logcat'' then Some [0x68, 0xFF, 0x69] else None" "''logcat''" "[0x68, 0xFF, 0x69]"]
    by blast
  then show ?thesis using d by auto
qed

text \<open>A content that is not valid UTF-8 is pulled without any error, and no input gives a decode error.\<close>

theorem undecodable_content_pulled_without_error:
  "utf8_decode Strict [0xFF] = Inl ''UnicodeDecodeError''
   \<and> pull_file Delivered (\<lambda>n. Some [0xFF]) ''logcat'' = Inr []
   \<and> \<not> (\<exists>net fs name m. pull_file net fs name = Inl (DecodeFailed m))"
proof -
  have "\<And>net fs name m. pull_file net fs name \<noteq> Inl (DecodeFailed m)"
    by (auto simp: pull_file_outcomes utf8_decode_ignore_not_Inl split: option.splits sum.splits)
  moreover have "pull_file Delivered (\<lambda>n. Some [0xFF]) ''logcat'' = Inr []"
    by (simp add: pull_file_outcomes utf8_decode_def)
  moreover have "utf8_decode Strict [0xFF] = Inl ''UnicodeDecodeError''"
    by (simp add: utf8_decode_def)
  ultimately show ?thesis by blast
qed

text \<open>
  Claim C2, amended. For a non-empty content, an upload that goes through stores exactly
  the content on the server. After every successful upload, the chunks of the pull of the
  stored file concatenate to exactly the content, and \<^verbatim>\<open>pull_file\<close> returns the
  content decoded as UTF-8 with the bytes that do not decode left out. When the content is
  valid UTF-8, that text encodes back to the original bytes. A content of at most one
  chunk size travels as one chunk, a larger one as two or more.
\<close>

theorem upload_then_pull_decodes:
  "(content \<noteq> [] \<longrightarrow>
      upload_file Delivered rel True name content path fs
        = (True, fs(py_joinpath (py_joinpath rel path) name \<mapsto> content)))
   \<and> (upload_file net rel io_ok name content path fs = (True, fs') \<longrightarrow>
        content \<noteq> []
        \<and> fs' (py_joinpath (py_joinpath rel path) name) = Some content
        \<and> PullFile fs' (py_joinpath (py_joinpath rel path) name) = Inr (read_chunks CHUNK_SIZE content)
        \<and> concat (read_chunks CHUNK_SIZE content) = content
        \<and> (\<exists>t. utf8_decode Ignore content = Inr t
                \<and> pull_file Delivered fs' (py_joinpath (py_joinpath rel path) name) = Inr t))
   \<and> (utf8_decode Strict content = Inr t \<longrightarrow> utf8_decode Ignore content = Inr t \<and> utf8_encode t = content)
   \<and> (content \<noteq> [] \<and> length content \<le> CHUNK_SIZE \<longrightarrow> read_chunks CHUNK_SIZE content = [content])
   \<and> (CHUNK_SIZE < length content \<longrightarrow> 2 \<le> length (read_chunks CHUNK_SIZE content))"
proof -
  let ?dest = "py_joinpath (py_joinpath rel path) name"
  have a: "content \<noteq> [] \<longrightarrow> upload_file Delivered rel True name content path fs = (True, fs(?dest \<mapsto> content))"
    by (simp add: upload_file_outcomes)
  have b: "content \<noteq> [] \<and> fs' ?dest = Some content
        \<and> PullFile fs' ?dest = Inr (read_chunks CHUNK_SIZE content)
        \<and> concat (read_chunks CHUNK_SIZE content) = content
        \<and> (\<exists>t. utf8_decode Ignore content = Inr t \<and> pull_file Delivered fs' ?dest = Inr t)"
    if u: "upload_file net rel io_ok name content path fs = (True, fs')"
  proof -
    from u have ne: "content \<noteq> []" and fs': "fs' = fs(?dest \<mapsto> content)"
      by (auto simp: upload_file_outcomes split: if_splits)
    obtain t where t: "utf8_decode Ignore content = Inr t" using utf8_decode_ignore_total by blast
    have "pull_file Delivered fs' ?dest = Inr t" using t fs' by (simp add: pull_file_outcomes)
    then show ?thesis using ne fs' t by (simp add: PullFile_def read_chunks_concat CHUNK_SIZE_pos)
  qed
  have c: "utf8_decode Strict content = Inr t \<longrightarrow> utf8_decode Ignore content = Inr t \<and> utf8_encode t = content"
    using utf8_strict_roundtrip by blast
  have d: "content \<noteq> [] \<and> length content \<le> CHUNK_SIZE \<longrightarrow> read_chunks CHUNK_SIZE content = [content]"
    using read_chunks_small by blast
  have e: "CHUNK_SIZE < length content \<longrightarrow> 2 \<le> length (read_chunks CHUNK_SIZE content)"
    using read_chunks_large[OF CHUNK_SIZE_pos] by blast
  show ?thesis using a b c d e by blast
qed

theorem upload_then_pull_decodes_witness:
  "upload_file Delivered ''/srv'' True ''f.txt'' [0x68, 0x69] ''Uploads'' Map.empty
      = (True, [''/srv/Uploads/f.txt'' \<mapsto> [0x68, 0x69]])
   \<and> pull_file Delivered [''/srv/Uploads/f.txt'' \<mapsto> [0x68, 0x69]] ''/srv/Uploads/f.txt'' = Inr [104, 105]
   \<and> utf8_decode Strict [0x68, 0x69] = Inr [104, 105]
   \<and> utf8_encode [104, 105] = [0x68, 0x69]
   \<and> length [0x68, 0x69 :: 8 word] \<le> CHUNK_SIZE
   \<and> read_chunks CHUNK_SIZE [0x68, 0x69] = [[0x68, 0x69]]"
proof -
  have p: "py_joinpath (py_joinpath ''/srv'' ''Uploads'') ''f.txt'' = ''/srv/Uploads/f.txt''"
    by (simp add: py_joinpath_def)
  have u: "upload_file Delivered ''/srv'' True ''f.txt'' [0x68, 0x69] ''Uploads'' Map.empty
      = (True, [''/srv/Uploads/f.txt'' \<mapsto> [0x68, 0x69]])"
    by (simp add: upload_file_outcomes p)
  have s: "utf8_decode Strict [0x68, 0x69] = Inr [104, 105]"
    by (simp add: utf8_decode_def)
  have l: "length [0x68, 0x69 :: 8 word] \<le> CHUNK_SIZE" by (simp add: CHUNK_SIZE_def)
  show ?thesis
    using upload_then_pull_decodes[of "[0x68, 0x69]" "''/srv''" "''f.txt''" "''Uploads''" Map.empty
        Delivered True "[''/srv/Uploads/f.txt'' \<mapsto> [0x68, 0x69]]" "[104, 105]"]
      u s l
    by (auto simp: p)
qed

text \<open>The one-byte content \<open>0xFF\<close> is uploaded, and pulled back as the empty text.\<close>

theorem pull_drops_undecodable_bytes:
  "fst (upload_file Delivered ''/srv'' True ''f.bin'' [0xFF] ''Uploads'' Map.empty) = True
   \<and> pull_file Delivered (snd (upload_file Delivered ''/srv'' True ''f.bin'' [0xFF] ''Uploads'' Map.empty))
        ''/srv/Uploads/f.bin'' = Inr []
   \<and> utf8_encode [] \<noteq> [0xFF]"
  by (simp add: upload_file_outcomes pull_file_outcomes py_joinpath_def utf8_decode_def utf8_encode_def)

text \<open>An upload of the empty content sends no request, and the server raises on the empty stream.\<close>

lemma upload_empty_fails:
  "upload_file net rel io_ok name [] path fs = (False, fs)"
  by (simp add: upload_file_outcomes)


section \<open>The pipeline and its cleanup\<close>

























end
